theory Spec2Isabelle
  imports Main "HOL-Library.List_Lexorder" "HOL-Library.Char_ord"
begin

text \<open>
  The repository holds two Node.js services around an MQTT broker and a Directus store.
  \<^verbatim>\<open>mqtt-bridge\<close> publishes device commands, from an HTTP trigger and from a polling
  reconciler with a dedup map; \<^verbatim>\<open>mqtt-subscriber\<close> writes the devices' status reports
  back to the command records. Each handler is a function from the process state and
  what the environment supplies (the broker's and the store's answers, clock readings,
  the events that fire meanwhile) to the new state and the outward calls it makes.
  Errors are values; every \<^verbatim>\<open>catch\<close> of the source is a branch.
\<close>

section \<open>JavaScript values\<close>

text \<open>
  Both services exchange JSON. A parsed JSON value is a \<open>json\<close>; a JavaScript
  expression that may be \<^verbatim>\<open>undefined\<close> is a \<open>json option\<close> with \<open>None\<close> for
  \<^verbatim>\<open>undefined\<close>. JSON numbers are integers here: the code only tests a number for
  truthiness and compares it with strings, where a fraction behaves as a non-zero integer.
\<close>

datatype json =
    JNull
  | JBool bool
  | JNum int
  | JStr string
  | JArr "json list"
  | JObj "(string \<times> json) list"

text \<open>JavaScript truthiness, the test behind \<^verbatim>\<open>!x\<close> and \<^verbatim>\<open>x || y\<close>.\<close>

fun truthy :: "json option \<Rightarrow> bool" where
  "truthy None = False"
| "truthy (Some JNull) = False"
| "truthy (Some (JBool b)) = b"
| "truthy (Some (JNum n)) = (n \<noteq> 0)"
| "truthy (Some (JStr s)) = (s \<noteq> [])"
| "truthy (Some (JArr xs)) = True"
| "truthy (Some (JObj kvs)) = True"

text \<open>
  Reading a property \<^verbatim>\<open>v.k\<close> of a value that is not \<^verbatim>\<open>null\<close>. The code reads only the
  names topic, payload, command_id, status, result and error_message, which no string,
  number, boolean or array has, so everything but an object gives \<^verbatim>\<open>undefined\<close>.
\<close>

fun member_of :: "json \<Rightarrow> string \<Rightarrow> json option" where
  "member_of (JObj kvs) k = map_of kvs k"
| "member_of v k = None"

text \<open>\<^verbatim>\<open>x || null\<close>\<close>

definition or_null :: "json option \<Rightarrow> json" where
  "or_null x = (case x of None \<Rightarrow> JNull | Some v \<Rightarrow> (if truthy (Some v) then v else JNull))"

text \<open>\<^verbatim>\<open>s.startsWith(pat)\<close>, used to define the two string methods the bridge calls.\<close>

fun starts_with :: "string \<Rightarrow> string \<Rightarrow> bool" where
  "starts_with [] s = True"
| "starts_with (p # ps) [] = False"
| "starts_with (p # ps) (c # cs) = (p = c \<and> starts_with ps cs)"

text \<open>\<^verbatim>\<open>s.includes(pat)\<close>\<close>

fun js_includes :: "string \<Rightarrow> string \<Rightarrow> bool" where
  "js_includes [] pat = (pat = [])"
| "js_includes (c # cs) pat = (starts_with pat (c # cs) \<or> js_includes cs pat)"

text \<open>
  \<^verbatim>\<open>s.replace(pat, rep)\<close> with a string pattern: only the first occurrence of \<open>pat\<close> is
  replaced (the replacement used by the bridge is the empty string, which holds no
  \<^verbatim>\<open>$\<close> pattern).
\<close>

fun replace_first :: "string \<Rightarrow> string \<Rightarrow> string \<Rightarrow> string" where
  "replace_first pat rep [] = (if pat = [] then rep else [])"
| "replace_first pat rep (c # cs) =
     (if starts_with pat (c # cs) then rep @ drop (length pat) (c # cs)
      else c # replace_first pat rep cs)"

datatype js_error =
    Error string
  | SyntaxError
  | TypeError
  | AxiosError

section \<open>The external store (Directus collection device_commands)\<close>

text \<open>
  A command record as the store holds it. The bridge's query asks for the fields id,
  command_type, fingerprint_id, member_id, device_id.id, device_id.device_mac,
  device_id.device_name and date_created; the subscriber writes status, result,
  error_message and executed_at. \<open>executed_at\<close> holds the clock reading (milliseconds)
  whose ISO rendering the subscriber stores; \<open>None\<close> is \<^verbatim>\<open>null\<close>.
\<close>

record device =
  dev_id :: string
  device_mac :: "string option"
  device_name :: "string option"

record command =
  cmd_id :: string
  command_type :: string
  fingerprint_id :: json
  member_id :: json
  device_id :: "device option"
  date_created :: string
  status :: string
  result :: json
  error_message :: json
  executed_at :: "int option"

text \<open>The body of a PATCH request: a field that is \<open>None\<close> is absent from the body.\<close>

record patch_data =
  p_status :: "string option"
  p_result :: "json option"
  p_error_message :: "json option"
  p_executed_at :: "int option"

definition apply_patch :: "patch_data \<Rightarrow> command \<Rightarrow> command" where
  "apply_patch d c =
     c\<lparr>status := (case p_status d of None \<Rightarrow> status c | Some s \<Rightarrow> s),
       result := (case p_result d of None \<Rightarrow> result c | Some r \<Rightarrow> r),
       error_message := (case p_error_message d of None \<Rightarrow> error_message c | Some e \<Rightarrow> e),
       executed_at := (case p_executed_at d of None \<Rightarrow> executed_at c | Some t \<Rightarrow> Some t)\<rparr>"

text \<open>
  \<^verbatim>\<open>directusApi.patch('/items/device_commands/' + id, data)\<close>. The store is an external
  service: \<open>ok\<close> says whether it answers this request at all (network, permission,
  timeout); a request for an identifier it does not hold is an error as well. A failed
  request changes nothing and rejects the promise with an Axios error.
\<close>

definition directus_patch ::
  "bool \<Rightarrow> command list \<Rightarrow> string \<Rightarrow> patch_data \<Rightarrow> js_error + command list" where
  "directus_patch ok items i d =
     (if ok \<and> i \<in> cmd_id ` set items
      then Inr (map (\<lambda>c. if cmd_id c = i then apply_patch d c else c) items)
      else Inl AxiosError)"

text \<open>
  The bridge's query: \<^verbatim>\<open>filter[status][_eq]=pending\<close>, \<^verbatim>\<open>sort=date_created\<close>,
  \<^verbatim>\<open>limit=10\<close>. Timestamps are ISO strings, ordered as strings.
\<close>

definition directus_get_pending :: "command list \<Rightarrow> command list" where
  "directus_get_pending items =
     take 10 (sort_key date_created (filter (\<lambda>c. status c = ''pending'') items))"

section \<open>mqtt-bridge\<close>

subsection \<open>Process state and asynchronous events\<close>

record bridge =
  mqttConnected :: bool
  isPolling :: bool
  recentlyPublished :: "string \<rightharpoonup> int"

definition PUBLISH_COOLDOWN :: int where
  "PUBLISH_COOLDOWN = 30000"

text \<open>
  The calls the bridge makes to the outside: \<^verbatim>\<open>mqttClient.publish(topic, message)\<close> and
  \<^verbatim>\<open>directusApi.patch(...)\<close>. The message text is \<open>Raw s\<close> for a string payload sent as it
  is and \<open>Json v\<close> for \<^verbatim>\<open>JSON.stringify(v)\<close>. A patch carries the store's answer to it
  (accepted or not), which the environment decides.
\<close>

datatype message = Raw string | Json json

datatype effect =
    MqttPublish json message
  | DirectusPatch string patch_data bool

text \<open>
  The handlers of the MQTT client's events and the one-minute cleanup timer, which reads
  the clock (\<^verbatim>\<open>Date.now()\<close>).
\<close>

datatype event =
    MqttConnect
  | MqttClose
  | MqttError string
  | MqttReconnect
  | CleanupTick int

definition cleanup :: "int \<Rightarrow> bridge \<Rightarrow> bridge" where
  "cleanup now b =
     b\<lparr>recentlyPublished :=
         (\<lambda>i. case recentlyPublished b i of
                 None \<Rightarrow> None
               | Some timestamp \<Rightarrow>
                   (if now - timestamp > PUBLISH_COOLDOWN then None else Some timestamp))\<rparr>"

fun on_event :: "bridge \<Rightarrow> event \<Rightarrow> bridge" where
  "on_event b MqttConnect = b\<lparr>mqttConnected := True\<rparr>"
| "on_event b MqttClose = b\<lparr>mqttConnected := False\<rparr>"
| "on_event b (MqttError m) = b"
| "on_event b MqttReconnect = b"
| "on_event b (CleanupTick now) = cleanup now b"

subsection \<open>The HTTP trigger\<close>

datatype resp_body =
    ErrorBody string
  | PublishOk json int

datatype response = Response nat resp_body

record request =
  authorization :: "string option"
  body :: "(string \<times> json) list"

text \<open>
  \<open>authMiddleware secret header\<close>: \<open>secret\<close> is \<^verbatim>\<open>process.env.BRIDGE_SECRET\<close>. The result
  is \<open>None\<close> for \<^verbatim>\<open>next()\<close> and the response otherwise.
\<close>

definition authMiddleware :: "string option \<Rightarrow> string option \<Rightarrow> response option" where
  "authMiddleware secret header =
     (let token = map_option (replace_first ''Bearer '' '''') header in
      if secret = None \<or> secret = Some [] then None
      else if token \<noteq> secret then Some (Response 401 (ErrorBody ''Unauthorized''))
      else None)"

text \<open>
  \<open>publishToMqtt b broker_err topic payload\<close>: \<open>broker_err\<close> is the error the broker
  client hands to the publish callback (\<open>None\<close> when the broker acknowledges). The result
  is the promise's outcome and the calls made to the broker client.
\<close>

definition publishToMqtt ::
  "bridge \<Rightarrow> string option \<Rightarrow> json \<Rightarrow> json \<Rightarrow> (js_error + unit) \<times> effect list" where
  "publishToMqtt b broker_err topic payload =
     (if \<not> mqttConnected b then (Inl (Error ''MQTT broker not connected''), [])
      else
        let message = (case payload of JStr s \<Rightarrow> Raw s | v \<Rightarrow> Json v) in
        (case broker_err of
           Some err \<Rightarrow> (Inl (Error err), [MqttPublish topic message])
         | None \<Rightarrow> (Inr (), [MqttPublish topic message])))"

text \<open>
  The handler of \<^verbatim>\<open>POST /api/mqtt/publish\<close>, behind the auth middleware. \<open>now\<close> is the
  clock reading of the response's timestamp.
\<close>

definition err_message :: "js_error \<Rightarrow> string" where
  "err_message e =
     (case e of
        Error m \<Rightarrow> m
      | SyntaxError \<Rightarrow> ''SyntaxError''
      | TypeError \<Rightarrow> ''TypeError''
      | AxiosError \<Rightarrow> ''AxiosError'')"

definition publish_handler ::
  "bridge \<Rightarrow> string option \<Rightarrow> int \<Rightarrow> request \<Rightarrow> response \<times> effect list" where
  "publish_handler b broker_err now req =
     (case map_of (body req) ''topic'' of
        None \<Rightarrow> (Response 400 (ErrorBody ''Missing topic''), [])
      | Some topic \<Rightarrow>
          if \<not> truthy (Some topic) then (Response 400 (ErrorBody ''Missing topic''), [])
          else
            (case map_of (body req) ''payload'' of
               None \<Rightarrow> (Response 400 (ErrorBody ''Missing payload''), [])
             | Some payload \<Rightarrow>
                 if \<not> truthy (Some payload)
                 then (Response 400 (ErrorBody ''Missing payload''), [])
                 else
                   (case publishToMqtt b broker_err topic payload of
                      (Inr u, fx) \<Rightarrow> (Response 200 (PublishOk topic now), fx)
                    | (Inl err, fx) \<Rightarrow>
                        (Response
                           (if js_includes (err_message err) ''not connected'' then 503 else 500)
                           (ErrorBody (err_message err)), fx))))"

definition publish_route ::
  "string option \<Rightarrow> bridge \<Rightarrow> string option \<Rightarrow> int \<Rightarrow> request \<Rightarrow> response \<times> effect list" where
  "publish_route secret b broker_err now req =
     (case authMiddleware secret (authorization req) of
        Some r \<Rightarrow> (r, [])
      | None \<Rightarrow> publish_handler b broker_err now req)"

subsection \<open>The poll reconciler\<close>

text \<open>
  What the environment supplies while one command of a cycle is handled: the events that
  fired while the previous \<^verbatim>\<open>await\<close> was pending, the broker's answer to a publish,
  the clock reading stored in the dedup map, and the store's answer to a patch.
\<close>

record step_env =
  pre_events :: "event list"
  broker_err :: "string option"
  clock :: int
  patch_ok :: bool

text \<open>The branch of the loop body a command took (the line the cycle logs for it).\<close>

datatype step_outcome =
    SkippedCached
  | MarkedFailed
  | Dispatched int
  | DispatchFailed js_error

text \<open>
  \<^verbatim>\<open>cmd.device_id?.device_mac\<close> followed by \<^verbatim>\<open>!deviceMac\<close>: a missing device, a
  \<^verbatim>\<open>null\<close> address and an empty address are all falsy.
\<close>

definition deviceMac_of :: "command \<Rightarrow> string option" where
  "deviceMac_of cmd =
     (case device_id cmd of
        None \<Rightarrow> None
      | Some d \<Rightarrow>
          (case device_mac d of
             None \<Rightarrow> None
           | Some mac \<Rightarrow> (if mac = [] then None else Some mac)))"

definition failed_patch :: patch_data where
  "failed_patch =
     \<lparr>p_status = Some ''failed'',
      p_result = None,
      p_error_message = Some (JStr ''Device has no MAC address configured''),
      p_executed_at = None\<rparr>"

definition command_topic :: "string \<Rightarrow> string" where
  "command_topic mac = ''device/'' @ mac @ ''/commands''"

definition command_payload :: "command \<Rightarrow> json" where
  "command_payload cmd =
     JObj [(''command_id'', JStr (cmd_id cmd)),
           (''type'', JStr (command_type cmd)),
           (''params'', JObj [(''fingerprint_id'', fingerprint_id cmd),
                              (''member_id'', member_id cmd)]),
           (''timestamp'', JStr (date_created cmd))]"

text \<open>The body of the \<^verbatim>\<open>for (const cmd of commands)\<close> loop.\<close>

definition pollStep ::
  "step_env \<Rightarrow> bridge \<Rightarrow> command \<Rightarrow> bridge \<times> step_outcome \<times> effect list" where
  "pollStep env b cmd =
     (if recentlyPublished b (cmd_id cmd) \<noteq> None then (b, SkippedCached, [])
      else
        (case deviceMac_of cmd of
           None \<Rightarrow> (b, MarkedFailed, [DirectusPatch (cmd_id cmd) failed_patch (patch_ok env)])
         | Some deviceMac \<Rightarrow>
             (case publishToMqtt b (broker_err env) (JStr (command_topic deviceMac))
                     (command_payload cmd) of
                (Inr u, fx) \<Rightarrow>
                  (b\<lparr>recentlyPublished := (recentlyPublished b)(cmd_id cmd \<mapsto> clock env)\<rparr>,
                   Dispatched (clock env), fx)
              | (Inl err, fx) \<Rightarrow> (b, DispatchFailed err, fx))))"

text \<open>
  The loop. Events that arrive while the loop waits (for the query, a publish or a patch)
  run before the next command is handled. For an event that fires while a publish is
  pending this moves it behind the \<^verbatim>\<open>recentlyPublished.set\<close> that follows the publish,
  which makes no difference: connection events do not touch the map, and a cleanup that
  ran before the entry was stored read a clock value no later than the one stored, so it
  keeps the entry in either order. The broker client is taken to answer every publish.
\<close>

fun pollLoop ::
  "(nat \<Rightarrow> step_env) \<Rightarrow> nat \<Rightarrow> command list \<Rightarrow> bridge \<Rightarrow>
     bridge \<times> (string \<times> step_outcome) list \<times> effect list" where
  "pollLoop env i [] b = (b, [], [])"
| "pollLoop env i (cmd # cmds) b =
     (case pollStep (env i) (foldl on_event b (pre_events (env i))) cmd of
        (b1, out, fx) \<Rightarrow>
          (case pollLoop env (Suc i) cmds b1 of
             (b2, outs, fxs) \<Rightarrow> (b2, (cmd_id cmd, out) # outs, fx @ fxs)))"

text \<open>
  \<open>pollPendingCommands directusApi fetched env b\<close>: \<open>directusApi\<close> says whether the
  store token is configured, \<open>fetched\<close> is the answer to the query for pending commands
  (\<^verbatim>\<open>data.data || []\<close>, or the error the request threw).
\<close>

definition pollPendingCommands ::
  "bool \<Rightarrow> js_error + command list \<Rightarrow> (nat \<Rightarrow> step_env) \<Rightarrow> bridge \<Rightarrow>
     bridge \<times> (string \<times> step_outcome) list \<times> effect list" where
  "pollPendingCommands directusApi fetched env b =
     (if \<not> directusApi then (b, [], [])
      else if \<not> mqttConnected b then (b, [], [])
      else if isPolling b then (b, [], [])
      else
        (case fetched of
           Inl err \<Rightarrow> (b\<lparr>isPolling := False\<rparr>, [], [])
         | Inr commands \<Rightarrow>
             (case pollLoop env 0 commands (b\<lparr>isPolling := True\<rparr>) of
                (b', outs, fx) \<Rightarrow> (b'\<lparr>isPolling := False\<rparr>, outs, fx))))"

text \<open>The command an outward call is about.\<close>

fun effect_cmd :: "effect \<Rightarrow> string option" where
  "effect_cmd (DirectusPatch i d ok) = Some i"
| "effect_cmd (MqttPublish t (Json v)) =
     (case member_of v ''command_id'' of Some (JStr i) \<Rightarrow> Some i | other \<Rightarrow> None)"
| "effect_cmd (MqttPublish t (Raw s)) = None"

fun is_publish :: "effect \<Rightarrow> bool" where
  "is_publish (MqttPublish t m) = True"
| "is_publish (DirectusPatch i d ok) = False"

section \<open>mqtt-subscriber\<close>

datatype consumer_outcome =
    NoCommandId
  | InvalidStatus
  | Updated
  | DirectusApiError
  | InvalidJson
  | OtherError

definition validStatuses :: "json list" where
  "validStatuses = [JStr ''processing'', JStr ''completed'', JStr ''failed'']"

text \<open>
  The template literal \<^verbatim>\<open>`/items/device_commands/${command_id}`\<close>: a string is
  inserted as it is, any other value through JavaScript's \<^verbatim>\<open>ToString\<close>, which is a
  parameter.
\<close>

definition template_str :: "(json \<Rightarrow> string) \<Rightarrow> json \<Rightarrow> string" where
  "template_str ToString v = (case v of JStr s \<Rightarrow> s | other \<Rightarrow> ToString other)"

text \<open>
  The \<^verbatim>\<open>try\<close> block of the message handler. \<open>parsed\<close> is the result of
  \<^verbatim>\<open>JSON.parse(message.toString())\<close>: \<open>None\<close> when it throws a \<^verbatim>\<open>SyntaxError\<close>.
  Destructuring \<^verbatim>\<open>null\<close> throws a \<^verbatim>\<open>TypeError\<close>. \<open>now\<close> is the clock reading of
  \<^verbatim>\<open>new Date()\<close>, \<open>ok\<close> the store's availability for the patch.
\<close>

definition message_body ::
  "(json \<Rightarrow> string) \<Rightarrow> bool \<Rightarrow> int \<Rightarrow> command list \<Rightarrow> json option \<Rightarrow>
     js_error + consumer_outcome \<times> command list" where
  "message_body ToString ok now items parsed =
     (case parsed of
        None \<Rightarrow> Inl SyntaxError
      | Some payload \<Rightarrow>
          if payload = JNull then Inl TypeError
          else
          (case member_of payload ''command_id'' of
             None \<Rightarrow> Inr (NoCommandId, items)
           | Some command_id \<Rightarrow>
               if \<not> truthy (Some command_id) then Inr (NoCommandId, items)
               else
                 (case member_of payload ''status'' of
                    Some (JStr st) \<Rightarrow>
                      if JStr st \<notin> set validStatuses then Inr (InvalidStatus, items)
                      else
                        (case directus_patch ok items (template_str ToString command_id)
                                \<lparr>p_status = Some st,
                                 p_result = Some (or_null (member_of payload ''result'')),
                                 p_error_message =
                                   Some (or_null (member_of payload ''error_message'')),
                                 p_executed_at = Some now\<rparr> of
                           Inl err \<Rightarrow> Inl err
                         | Inr items' \<Rightarrow> Inr (Updated, items'))
                  | other \<Rightarrow> Inr (InvalidStatus, items))))"

text \<open>
  The handler with its \<^verbatim>\<open>catch\<close> clause, which logs every error and rethrows none.
  The topic is split only to log the device address.
\<close>

definition on_message ::
  "(json \<Rightarrow> string) \<Rightarrow> bool \<Rightarrow> int \<Rightarrow> command list \<Rightarrow> string \<Rightarrow> json option \<Rightarrow>
     consumer_outcome \<times> command list" where
  "on_message ToString ok now items topic parsed =
     (case message_body ToString ok now items parsed of
        Inr r \<Rightarrow> r
      | Inl AxiosError \<Rightarrow> (DirectusApiError, items)
      | Inl SyntaxError \<Rightarrow> (InvalidJson, items)
      | Inl err \<Rightarrow> (OtherError, items))"

section \<open>Both services against one store\<close>

record system =
  bridge_st :: bridge
  store :: "command list"

datatype action =
    Cycle bool "nat \<Rightarrow> step_env"
  | Report bool int string "json option"
  | Ev event

fun apply_effect :: "command list \<Rightarrow> effect \<Rightarrow> command list" where
  "apply_effect its (MqttPublish t m) = its"
| "apply_effect its (DirectusPatch i d ok) =
     (case directus_patch ok its i d of Inr its' \<Rightarrow> its' | Inl err \<Rightarrow> its)"

text \<open>
  One step of the whole engine, with the outward calls of the reconciler. A cycle queries
  the store (\<open>Cycle fetch_ok env\<close>: \<open>fetch_ok\<close> says whether the query is answered), a
  report is a message on \<^verbatim>\<open>device/+/status\<close>.
\<close>

fun sys_step ::
  "bool \<Rightarrow> (json \<Rightarrow> string) \<Rightarrow> system \<Rightarrow> action \<Rightarrow> system \<times> effect list" where
  "sys_step directusApi ToString s (Cycle fetch_ok env) =
     (case pollPendingCommands directusApi
             (if fetch_ok then Inr (directus_get_pending (store s)) else Inl AxiosError)
             env (bridge_st s) of
        (b', outs, fx) \<Rightarrow> (\<lparr>bridge_st = b', store = foldl apply_effect (store s) fx\<rparr>, fx))"
| "sys_step directusApi ToString s (Report ok now topic parsed) =
     (s\<lparr>store := snd (on_message ToString ok now (store s) topic parsed)\<rparr>, [])"
| "sys_step directusApi ToString s (Ev e) = (s\<lparr>bridge_st := on_event (bridge_st s) e\<rparr>, [])"

fun sys_run ::
  "bool \<Rightarrow> (json \<Rightarrow> string) \<Rightarrow> system \<Rightarrow> action list \<Rightarrow> system \<times> effect list" where
  "sys_run directusApi ToString s [] = (s, [])"
| "sys_run directusApi ToString s (a # as) =
     (case sys_step directusApi ToString s a of
        (s1, fx) \<Rightarrow>
          (case sys_run directusApi ToString s1 as of (s2, fxs) \<Rightarrow> (s2, fx @ fxs)))"

section \<open>Notions used in the statements\<close>

text \<open>The status code of a response.\<close>

definition resp_code :: "response \<Rightarrow> nat" where
  "resp_code r = (case r of Response code b \<Rightarrow> code)"

text \<open>The outward calls about the command \<open>k\<close>.\<close>

definition calls_about :: "string \<Rightarrow> effect list \<Rightarrow> effect list" where
  "calls_about k fx = filter (\<lambda>e. effect_cmd e = Some k) fx"

text \<open>
  \<open>ticks_by limit evs\<close>: every run of the cleanup timer among the events \<open>evs\<close> reads a
  clock value of at most \<open>limit\<close>.
\<close>

fun tick_by :: "int \<Rightarrow> event \<Rightarrow> bool" where
  "tick_by limit (CleanupTick t) = (t \<le> limit)"
| "tick_by limit e = True"

definition ticks_by :: "int \<Rightarrow> event list \<Rightarrow> bool" where
  "ticks_by limit evs = list_all (tick_by limit) evs"

text \<open>
  What an accepted status report does to the records of the command \<open>i\<close>: the four fields
  are overwritten (used to state facts about \<open>on_message\<close>).
\<close>

definition overwrite :: "string \<Rightarrow> string \<Rightarrow> json \<Rightarrow> json \<Rightarrow> int \<Rightarrow> command \<Rightarrow> command" where
  "overwrite i st r e t c =
     (if cmd_id c = i
      then c\<lparr>status := st, result := r, error_message := e, executed_at := Some t\<rparr>
      else c)"

text \<open>
  Two states of the store's records of the command \<open>k\<close>: marked failed by the reconciler,
  and no longer pending.
\<close>

definition marked :: "string \<Rightarrow> command list \<Rightarrow> bool" where
  "marked k its =
     (\<forall>r \<in> set its. cmd_id r = k \<longrightarrow>
        status r = ''failed'' \<and> error_message r = JStr ''Device has no MAC address configured'')"

definition settled :: "string \<Rightarrow> command list \<Rightarrow> bool" where
  "settled k its = (\<forall>r \<in> set its. cmd_id r = k \<longrightarrow> status r \<noteq> ''pending'')"

text \<open>
  The identifiers whose patch the store accepted, and a record after the reconciler's
  patch was applied to the identifiers of \<open>A\<close> (used to describe the store after a cycle).
\<close>

fun accepted_id :: "effect \<Rightarrow> string list" where
  "accepted_id (DirectusPatch i d ok) = (if ok then [i] else [])"
| "accepted_id (MqttPublish t m) = []"

definition accepted_ids :: "effect list \<Rightarrow> string set" where
  "accepted_ids fx = set (concat (map accepted_id fx))"

definition mark_failed :: "string set \<Rightarrow> command \<Rightarrow> command" where
  "mark_failed A r = (if cmd_id r \<in> A then apply_patch failed_patch r else r)"

section \<open>Concrete inputs\<close>

text \<open>A connected and a disconnected bridge with an empty dedup map.\<close>

definition bridge_up :: bridge where
  "bridge_up = \<lparr>mqttConnected = True, isPolling = False, recentlyPublished = Map.empty\<rparr>"

definition bridge_down :: bridge where
  "bridge_down = \<lparr>mqttConnected = False, isPolling = False, recentlyPublished = Map.empty\<rparr>"

text \<open>An environment in which nothing happens in between and every call succeeds.\<close>

definition env_ok :: "int \<Rightarrow> step_env" where
  "env_ok t = \<lparr>pre_events = [], broker_err = None, clock = t, patch_ok = True\<rparr>"

text \<open>
  The commands of the specification's scenarios: \<open>C1\<close> has no device address, \<open>C2\<close>
  goes to the device \<open>AA:BB:CC\<close>.
\<close>

definition cmd_C1 :: command where
  "cmd_C1 =
     \<lparr>cmd_id = ''C1'', command_type = ''enroll'', fingerprint_id = JNum 7,
      member_id = JStr ''m1'', device_id = None, date_created = ''2024-05-01T10:00:00Z'',
      status = ''pending'', result = JNull, error_message = JNull, executed_at = None\<rparr>"

definition cmd_C2 :: command where
  "cmd_C2 =
     \<lparr>cmd_id = ''C2'', command_type = ''enroll'', fingerprint_id = JNum 8,
      member_id = JStr ''m2'',
      device_id = Some \<lparr>dev_id = ''d1'', device_mac = Some ''AA:BB:CC'',
                         device_name = Some ''front door''\<rparr>,
      date_created = ''2024-05-01T10:00:05Z'',
      status = ''pending'', result = JNull, error_message = JNull, executed_at = None\<rparr>"

definition valid_request :: request where
  "valid_request =
     \<lparr>authorization = Some ''Bearer s3cret'',
      body = [(''topic'', JStr ''device/AA:BB:CC/commands''),
              (''payload'', JObj [(''command_id'', JStr ''C2'')])]\<rparr>"

text \<open>The status report of the specification's last scenario.\<close>

definition report_C2 :: json where
  "report_C2 =
     JObj [(''command_id'', JStr ''C2''), (''status'', JStr ''completed''),
           (''result'', JObj [(''ok'', JBool True)])]"

text \<open>\<open>C2\<close> after the report of its completion was applied at clock reading \<open>t\<close>.\<close>

definition cmd_C2_done :: "int \<Rightarrow> command" where
  "cmd_C2_done t =
     cmd_C2\<lparr>status := ''completed'', result := JObj [(''ok'', JBool True)],
            error_message := JNull, executed_at := Some t\<rparr>"

text \<open>The bridge after \<open>C2\<close> was dispatched at clock reading \<open>t\<close>.\<close>

definition bridge_C2 :: "int \<Rightarrow> bridge" where
  "bridge_C2 t = bridge_up\<lparr>recentlyPublished := [''C2'' \<mapsto> t]\<rparr>"


text \<open>An environment in which the store refuses every patch.\<close>

definition env_store_down :: "int \<Rightarrow> step_env" where
  "env_store_down t = \<lparr>pre_events = [], broker_err = None, clock = t, patch_ok = False\<rparr>"

text \<open>\<open>C1\<close> after the reconciler marked it failed.\<close>

definition cmd_C1_failed :: command where
  "cmd_C1_failed =
     cmd_C1\<lparr>status := ''failed'',
            error_message := JStr ''Device has no MAC address configured''\<rparr>"

text \<open>A second command without a device address, created after \<open>C1\<close>.\<close>

definition cmd_C3 :: command where
  "cmd_C3 =
     \<lparr>cmd_id = ''C3'', command_type = ''delete'', fingerprint_id = JNum 9,
      member_id = JStr ''m3'', device_id = None, date_created = ''2024-05-01T10:00:09Z'',
      status = ''pending'', result = JNull, error_message = JNull, executed_at = None\<rparr>"

text \<open>An environment in which the store accepts the first patch of a cycle only.\<close>

definition env_first_patch :: "int \<Rightarrow> nat \<Rightarrow> step_env" where
  "env_first_patch t j = (if j = 0 then env_ok t else env_store_down t)"

section \<open>Auxiliary facts\<close>

lemma truthy_Some: "truthy x \<Longrightarrow> \<exists>v. x = Some v"
  by (cases x) auto

lemma replace_first_absent: "\<not> js_includes s pat \<Longrightarrow> replace_first pat rep s = s"
  by (induction s) auto

section \<open>The trigger's bearer check\<close>

text \<open>
  Claim C10, as stated, fails in its second part: a header that is the bare secret, with
  no \<^verbatim>\<open>'Bearer '\<close> in front, is refused when \<^verbatim>\<open>'Bearer '\<close> occurs inside the secret,
  because the removal then changes the header.
\<close>

theorem bare_secret_refused:
  "authMiddleware (Some ''a Bearer b'') (Some ''a Bearer b'') =
     Some (Response 401 (ErrorBody ''Unauthorized''))
   \<and> \<not> starts_with ''Bearer '' ''a Bearer b''
   \<and> replace_first ''Bearer '' [] ''a Bearer b'' = ''a b''"
  by (simp add: authMiddleware_def)

text \<open>
  Claim C10, amended. With a shared secret configured (\<^verbatim>\<open>BRIDGE_SECRET\<close> set and not
  empty), the auth middleware lets a request through exactly when the Authorization
  header is present and, with its first occurrence of \<^verbatim>\<open>'Bearer '\<close> removed, equals the
  secret. Every other request is answered 401. A header that is the bare secret is let
  through when \<^verbatim>\<open>'Bearer '\<close> does not occur in the secret (the removal then leaves it
  as it is), and a request without the header is answered 401.
\<close>

theorem auth_check_bearer:
  assumes "secret \<noteq> []"
  shows "(authMiddleware (Some secret) header = None) =
           (\<exists>h. header = Some h \<and> replace_first ''Bearer '' '''' h = secret)
       \<and> (authMiddleware (Some secret) header \<noteq> None \<longrightarrow>
            authMiddleware (Some secret) header = Some (Response 401 (ErrorBody ''Unauthorized'')))
       \<and> (\<not> js_includes secret ''Bearer '' \<longrightarrow> authMiddleware (Some secret) (Some secret) = None)
       \<and> authMiddleware (Some secret) None = Some (Response 401 (ErrorBody ''Unauthorized''))"
  using assms by (cases header) (auto simp: authMiddleware_def replace_first_absent)

theorem auth_check_bearer_witness:
  "authMiddleware (Some ''s3cret'') (Some ''Bearer s3cret'') = None
   \<and> authMiddleware (Some ''s3cret'') (Some ''s3cret'') = None
   \<and> authMiddleware (Some ''s3cret'') (Some ''Bearer wrong'') =
       Some (Response 401 (ErrorBody ''Unauthorized''))
   \<and> authMiddleware (Some ''s3cret'') None = Some (Response 401 (ErrorBody ''Unauthorized''))"
  using auth_check_bearer [of "''s3cret''" "Some ''Bearer s3cret''"]
        auth_check_bearer [of "''s3cret''" "Some ''Bearer wrong''"]
  by simp

section \<open>Dispatch while the broker is disconnected\<close>

text \<open>
  Claim C4. A dispatch request is a call of \<open>publishToMqtt\<close>, the one publish path of the
  trigger route and of the reconciler. While the connection flag is down
  \<^item> the call is rejected with the error \<^verbatim>\<open>MQTT broker not connected\<close> and makes no call
    to the broker client, so nothing is delivered and nothing is handed to the client to
    queue;
  \<^item> on the trigger path, a request that reaches the dispatch (it passed the bearer check
    and carries a topic and a payload) is answered 503 with that error, again with no
    call to the broker client;
  \<^item> in the reconciler, a command that reaches the dispatch fails with the same error,
    with no call and no change of the bridge's state (no dedup entry), and a cycle that
    starts while disconnected does nothing at all.
\<close>

theorem disconnected_dispatch_fails:
  assumes "\<not> mqttConnected b"
  shows "publishToMqtt b berr topic payload = (Inl (Error ''MQTT broker not connected''), [])
       \<and> (authMiddleware secret (authorization req) = None
            \<and> truthy (map_of (body req) ''topic'') \<and> truthy (map_of (body req) ''payload'') \<longrightarrow>
            publish_route secret b berr t req =
              (Response 503 (ErrorBody ''MQTT broker not connected''), []))
       \<and> (recentlyPublished b (cmd_id cmd) = None \<and> deviceMac_of cmd \<noteq> None \<longrightarrow>
            pollStep env b cmd = (b, DispatchFailed (Error ''MQTT broker not connected''), []))
       \<and> pollPendingCommands directusApi fetched envs b = (b, [], [])"
proof -
  have p: "\<And>be tp pl. publishToMqtt b be tp pl = (Inl (Error ''MQTT broker not connected''), [])"
    using assms by (simp add: publishToMqtt_def)
  have r: "publish_route secret b berr t req =
              (Response 503 (ErrorBody ''MQTT broker not connected''), [])"
    if "authMiddleware secret (authorization req) = None"
      and "truthy (map_of (body req) ''topic'')" and "truthy (map_of (body req) ''payload'')"
    using that truthy_Some [OF that(2)] truthy_Some [OF that(3)]
    by (auto simp: publish_route_def publish_handler_def p err_message_def)
  have s: "pollStep env b cmd = (b, DispatchFailed (Error ''MQTT broker not connected''), [])"
    if "recentlyPublished b (cmd_id cmd) = None" and "deviceMac_of cmd \<noteq> None"
    using that by (auto simp: pollStep_def p)
  have c: "pollPendingCommands directusApi fetched envs b = (b, [], [])"
    using assms by (simp add: pollPendingCommands_def)
  from p r s c show ?thesis by blast
qed

theorem disconnected_dispatch_fails_witness:
  "\<not> mqttConnected bridge_down
   \<and> publishToMqtt bridge_down None (JStr ''device/AA:BB:CC/commands'') (command_payload cmd_C2) =
       (Inl (Error ''MQTT broker not connected''), [])
   \<and> publish_route (Some ''s3cret'') bridge_down None 1000 valid_request =
       (Response 503 (ErrorBody ''MQTT broker not connected''), [])
   \<and> pollStep (env_ok 1000) bridge_down cmd_C2 =
       (bridge_down, DispatchFailed (Error ''MQTT broker not connected''), [])
   \<and> pollPendingCommands True (Inr [cmd_C2]) (\<lambda>i. env_ok 1000) bridge_down = (bridge_down, [], [])"
proof -
  have d: "\<not> mqttConnected bridge_down" by (simp add: bridge_down_def)
  have a: "authMiddleware (Some ''s3cret'') (authorization valid_request) = None"
    by (simp add: authMiddleware_def valid_request_def)
  have v: "truthy (map_of (body valid_request) ''topic'')"
          "truthy (map_of (body valid_request) ''payload'')"
    by (simp_all add: valid_request_def)
  have m: "recentlyPublished bridge_down (cmd_id cmd_C2) = None" "deviceMac_of cmd_C2 \<noteq> None"
    by (simp_all add: bridge_down_def cmd_C2_def deviceMac_of_def)
  show ?thesis
    using d a v m
      disconnected_dispatch_fails [OF d, of None "JStr ''device/AA:BB:CC/commands''"
        "command_payload cmd_C2" "Some ''s3cret''" valid_request 1000 cmd_C2 "env_ok 1000"
        True "Inr [cmd_C2]" "\<lambda>i. env_ok 1000"]
    by blast
qed

section \<open>Validation of a trigger request\<close>

text \<open>
  Claim C9, as stated, fails in two ways. The handler tests \<^verbatim>\<open>!topic\<close> and
  \<^verbatim>\<open>!payload\<close>, and an empty object is truthy: an authorised request whose payload is
  the empty object \<^verbatim>\<open>{}\<close> is not rejected, it is answered 200 and the text \<^verbatim>\<open>{}\<close> is
  published. And the bearer check runs before the handler: a request without topic and
  payload that fails it is answered 401, not 400.
\<close>

theorem empty_object_payload_published:
  "publish_route (Some ''s3cret'') bridge_up None 1000
     \<lparr>authorization = Some ''Bearer s3cret'',
      body = [(''topic'', JStr ''device/AA:BB:CC/commands''), (''payload'', JObj [])]\<rparr> =
   (Response 200 (PublishOk (JStr ''device/AA:BB:CC/commands'') 1000),
    [MqttPublish (JStr ''device/AA:BB:CC/commands'') (Json (JObj []))])
   \<and> publish_route (Some ''s3cret'') bridge_up None 1000 \<lparr>authorization = None, body = []\<rparr> =
   (Response 401 (ErrorBody ''Unauthorized''), [])"
  by (simp add: publish_route_def publish_handler_def authMiddleware_def publishToMqtt_def
        bridge_up_def)

text \<open>
  Claim C9, amended. For every trigger request that passes the bearer check (one that
  does not is answered 401 before the handler runs): when the
  topic is absent or falsy (\<^verbatim>\<open>null\<close>, \<^verbatim>\<open>false\<close>, \<^verbatim>\<open>0\<close> or the empty string) the answer
  is 400 \<^verbatim>\<open>Missing topic\<close>; when the topic is truthy and the payload is absent or falsy
  the answer is 400 \<^verbatim>\<open>Missing payload\<close>; in both cases no call is made to the broker
  client. When both are truthy (which an empty object or array is) the request proceeds:
  the answer is not 400 and the calls made are those of \<open>publishToMqtt\<close> on that topic and
  payload.
\<close>

theorem trigger_validation:
  assumes "authMiddleware secret (authorization req) = None"
  shows "(\<not> truthy (map_of (body req) ''topic'') \<longrightarrow>
            publish_route secret b berr t req = (Response 400 (ErrorBody ''Missing topic''), []))
       \<and> (truthy (map_of (body req) ''topic'') \<and> \<not> truthy (map_of (body req) ''payload'') \<longrightarrow>
            publish_route secret b berr t req = (Response 400 (ErrorBody ''Missing payload''), []))
       \<and> (truthy (map_of (body req) ''topic'') \<and> truthy (map_of (body req) ''payload'') \<longrightarrow>
            resp_code (fst (publish_route secret b berr t req)) \<noteq> 400
            \<and> (\<exists>tp pl. map_of (body req) ''topic'' = Some tp
                  \<and> map_of (body req) ''payload'' = Some pl
                  \<and> snd (publish_route secret b berr t req) = snd (publishToMqtt b berr tp pl)))"
  using assms
  by (auto simp: publish_route_def publish_handler_def resp_code_def
           split: option.splits prod.splits sum.splits dest: truthy_Some)

theorem trigger_validation_witness:
  "authMiddleware (Some ''s3cret'') (Some ''Bearer s3cret'') = None
   \<and> publish_route (Some ''s3cret'') bridge_up None 1000
        \<lparr>authorization = Some ''Bearer s3cret'', body = [(''payload'', JObj [])]\<rparr> =
       (Response 400 (ErrorBody ''Missing topic''), [])
   \<and> publish_route (Some ''s3cret'') bridge_up None 1000
        \<lparr>authorization = Some ''Bearer s3cret'',
         body = [(''topic'', JStr ''device/AA:BB:CC/commands''), (''payload'', JStr [])]\<rparr> =
       (Response 400 (ErrorBody ''Missing payload''), [])
   \<and> resp_code (fst (publish_route (Some ''s3cret'') bridge_up None 1000 valid_request)) \<noteq> 400"
proof -
  have a: "authMiddleware (Some ''s3cret'') (Some ''Bearer s3cret'') = None"
    by (simp add: authMiddleware_def)
  show ?thesis
    using a
      trigger_validation [of "Some ''s3cret''"
        "\<lparr>authorization = Some ''Bearer s3cret'', body = [(''payload'', JObj [])]\<rparr>"
        bridge_up None 1000]
      trigger_validation [of "Some ''s3cret''"
        "\<lparr>authorization = Some ''Bearer s3cret'',
         body = [(''topic'', JStr ''device/AA:BB:CC/commands''), (''payload'', JStr [])]\<rparr>"
        bridge_up None 1000]
      trigger_validation [of "Some ''s3cret''" valid_request bridge_up None 1000]
    by (simp add: valid_request_def)
qed

section \<open>The status consumer\<close>

subsection \<open>The handler, case by case\<close>

lemma cmd_id_apply_patch: "cmd_id (apply_patch d c) = cmd_id c"
  by (simp add: apply_patch_def)

lemma directus_patch_ids: "directus_patch ok its i d = Inr its' \<Longrightarrow> map cmd_id its' = map cmd_id its"
  by (auto simp: directus_patch_def cmd_id_apply_patch split: if_splits)

lemma directus_patch_Inl: "directus_patch ok its i d = Inl e \<Longrightarrow> e = AxiosError"
  by (auto simp: directus_patch_def split: if_splits)

lemma message_body_unparsed: "message_body ToString ok t its None = Inl SyntaxError"
  by (simp add: message_body_def)

lemma message_body_null: "message_body ToString ok t its (Some JNull) = Inl TypeError"
  by (simp add: message_body_def)

lemma message_body_no_id:
  assumes "v \<noteq> JNull" and "\<not> truthy (member_of v ''command_id'')"
  shows "message_body ToString ok t its (Some v) = Inr (NoCommandId, its)"
  using assms by (cases "member_of v ''command_id''") (simp_all add: message_body_def)

lemma message_body_bad_status:
  assumes "v \<noteq> JNull" and "truthy (member_of v ''command_id'')"
    and "member_of v ''status'' \<notin> {Some (JStr ''processing''), Some (JStr ''completed''),
                                      Some (JStr ''failed'')}"
  shows "message_body ToString ok t its (Some v) = Inr (InvalidStatus, its)"
proof -
  obtain c where c: "member_of v ''command_id'' = Some c"
    using truthy_Some [OF assms(2)] by blast
  show ?thesis
  proof (cases "member_of v ''status''")
    case None
    with assms(1,2) c show ?thesis by (simp add: message_body_def)
  next
    case (Some sv)
    with assms c show ?thesis
      by (cases sv) (simp_all add: message_body_def validStatuses_def)
  qed
qed

text \<open>
  Claim C7. A status message that does not parse, that carries no command identifier (none
  at all, or a falsy one: \<^verbatim>\<open>null\<close>, \<^verbatim>\<open>false\<close>, \<^verbatim>\<open>0\<close>, the empty string), or whose
  status is not one of processing, completed and failed, is dropped: the handler returns
  normally with one of its four logging outcomes (the \<^verbatim>\<open>catch\<close> clause handles the
  errors of parsing and destructuring), it sends no request to the store, and every
  command record is as it was.
\<close>

theorem malformed_report_dropped:
  assumes "parsed = None
         \<or> (\<exists>v. parsed = Some v \<and> \<not> truthy (member_of v ''command_id''))
         \<or> (\<exists>v. parsed = Some v \<and>
               member_of v ''status'' \<notin> {Some (JStr ''processing''), Some (JStr ''completed''),
                                          Some (JStr ''failed'')})"
  shows "snd (on_message ToString ok t its topic parsed) = its
       \<and> fst (on_message ToString ok t its topic parsed)
           \<in> {InvalidJson, NoCommandId, InvalidStatus, OtherError}"
proof (cases parsed)
  case None
  then show ?thesis by (simp add: on_message_def message_body_unparsed)
next
  case (Some v)
  show ?thesis
  proof (cases "v = JNull")
    case True
    with Some show ?thesis by (simp add: on_message_def message_body_null)
  next
    case notnull: False
    show ?thesis
    proof (cases "truthy (member_of v ''command_id'')")
      case False
      with Some notnull show ?thesis by (simp add: on_message_def message_body_no_id)
    next
      case True
      with assms Some have "member_of v ''status'' \<notin> {Some (JStr ''processing''),
          Some (JStr ''completed''), Some (JStr ''failed'')}"
        by auto
      with Some notnull True show ?thesis by (simp add: on_message_def message_body_bad_status)
    qed
  qed
qed

theorem malformed_report_dropped_witness:
  "snd (on_message (\<lambda>v. []) True 1000 [cmd_C2] ''device/AA:BB:CC/status'' None) = [cmd_C2]
   \<and> snd (on_message (\<lambda>v. []) True 1000 [cmd_C2] ''device/AA:BB:CC/status''
           (Some (JObj [(''status'', JStr ''completed'')]))) = [cmd_C2]
   \<and> snd (on_message (\<lambda>v. []) True 1000 [cmd_C2] ''device/AA:BB:CC/status''
           (Some (JObj [(''command_id'', JStr ''C2''), (''status'', JStr ''pending'')]))) = [cmd_C2]"
  using malformed_report_dropped [of None "\<lambda>v. []" True 1000 "[cmd_C2]" "''device/AA:BB:CC/status''"]
    malformed_report_dropped [of "Some (JObj [(''status'', JStr ''completed'')])" "\<lambda>v. []" True
      1000 "[cmd_C2]" "''device/AA:BB:CC/status''"]
    malformed_report_dropped [of
      "Some (JObj [(''command_id'', JStr ''C2''), (''status'', JStr ''pending'')])" "\<lambda>v. []" True
      1000 "[cmd_C2]" "''device/AA:BB:CC/status''"]
  by simp

lemma on_message_valid:
  assumes "v \<noteq> JNull" and "member_of v ''command_id'' = Some c" and "truthy (Some c)"
    and "member_of v ''status'' = Some (JStr st)" and "JStr st \<in> set validStatuses"
  shows "on_message ToString ok t its topic (Some v) =
           (if ok \<and> template_str ToString c \<in> cmd_id ` set its
            then (Updated,
                  map (overwrite (template_str ToString c) st (or_null (member_of v ''result''))
                         (or_null (member_of v ''error_message'')) t) its)
            else (DirectusApiError, its))"
  using assms
  by (simp add: on_message_def message_body_def directus_patch_def apply_patch_def overwrite_def)

lemma on_message_normal_form:
  "(\<exists>out. out \<noteq> Updated \<and> (\<forall>ok t its. on_message ToString ok t its topic parsed = (out, its)))
   \<or> (\<exists>i st r e. JStr st \<in> set validStatuses \<and>
         (\<forall>ok t its. on_message ToString ok t its topic parsed =
          (if ok \<and> i \<in> cmd_id ` set its then (Updated, map (overwrite i st r e t) its)
           else (DirectusApiError, its))))"
proof (cases parsed)
  case None
  have "\<forall>ok t its. on_message ToString ok t its topic parsed = (InvalidJson, its)"
    by (simp add: None on_message_def message_body_unparsed)
  then show ?thesis
      by (intro disjI1 exI [of _ InvalidJson] conjI) simp_all
next
  case (Some v)
  show ?thesis
  proof (cases "v = JNull")
    case True
    have "\<forall>ok t its. on_message ToString ok t its topic parsed = (OtherError, its)"
      by (simp add: Some True on_message_def message_body_null)
    then show ?thesis
      by (intro disjI1 exI [of _ OtherError] conjI) simp_all
  next
    case notnull: False
    show ?thesis
    proof (cases "truthy (member_of v ''command_id'')")
      case False
      have "\<forall>ok t its. on_message ToString ok t its topic parsed = (NoCommandId, its)"
        by (simp add: Some on_message_def message_body_no_id [OF notnull False])
      then show ?thesis
      by (intro disjI1 exI [of _ NoCommandId] conjI) simp_all
    next
      case True
      obtain c where c0: "member_of v ''command_id'' = Some c"
        using truthy_Some [OF True] by blast
      with True have c: "member_of v ''command_id'' = Some c" "truthy (Some c)"
        by simp_all
      show ?thesis
      proof (cases "member_of v ''status'' \<in> {Some (JStr ''processing''),
                      Some (JStr ''completed''), Some (JStr ''failed'')}")
        case False
        have "\<forall>ok t its. on_message ToString ok t its topic parsed = (InvalidStatus, its)"
          by (simp add: Some on_message_def message_body_bad_status [OF notnull True False])
        then show ?thesis
      by (intro disjI1 exI [of _ InvalidStatus] conjI) simp_all
      next
        case valid: True
        then obtain st where st: "member_of v ''status'' = Some (JStr st)"
            "JStr st \<in> set validStatuses"
          by (auto simp: validStatuses_def)
        have "\<forall>ok t its. on_message ToString ok t its topic parsed =
                (if ok \<and> template_str ToString c \<in> cmd_id ` set its
                 then (Updated,
                       map (overwrite (template_str ToString c) st
                              (or_null (member_of v ''result''))
                              (or_null (member_of v ''error_message'')) t) its)
                 else (DirectusApiError, its))"
          using on_message_valid [OF notnull c st] Some by simp
        with st(2) show ?thesis
          by (intro disjI2 exI [of _ "template_str ToString c"] exI [of _ st]
                exI [of _ "or_null (member_of v ''result'')"]
                exI [of _ "or_null (member_of v ''error_message'')"] conjI)
      qed
    qed
  qed
qed

lemma cmd_id_overwrite: "cmd_id (overwrite i st r e t c) = cmd_id c"
  by (simp add: overwrite_def)

lemma overwrite_ids: "cmd_id ` set (map (overwrite i st r e t) its) = cmd_id ` set its"
  by (simp add: image_image cmd_id_overwrite)

lemma overwrite_again:
  "overwrite i st r e t2 (overwrite i st r e t1 c) =
     (if cmd_id (overwrite i st r e t1 c) = i
      then (overwrite i st r e t1 c)\<lparr>executed_at := Some t2\<rparr>
      else overwrite i st r e t1 c)"
  by (simp add: overwrite_def)

lemma overwrite_same: "overwrite i st r e t (overwrite i st r e t c) = overwrite i st r e t c"
  by (simp add: overwrite_def)

lemma report_C2_applied:
  "on_message (\<lambda>v. []) True t [c\<lparr>cmd_id := ''C2''\<rparr>] ''device/AA:BB:CC/status'' (Some report_C2) =
     (Updated, [c\<lparr>cmd_id := ''C2'', status := ''completed'', result := JObj [(''ok'', JBool True)],
                  error_message := JNull, executed_at := Some t\<rparr>])"
  by (simp add: on_message_def message_body_def report_C2_def validStatuses_def directus_patch_def
        template_str_def apply_patch_def or_null_def)

lemma cmd_C2_id: "cmd_C2\<lparr>cmd_id := ''C2''\<rparr> = cmd_C2" "cmd_C2_done t\<lparr>cmd_id := ''C2''\<rparr> = cmd_C2_done t"
  by (simp_all add: cmd_C2_def cmd_C2_done_def)

text \<open>
  Claim C3, as stated, fails on the execution timestamp: the handler writes the clock
  reading of each application. The report of the completion of \<open>C2\<close>, applied at 1000
  and again at 2000, leaves the record with the second reading.
\<close>

theorem replay_moves_executed_at:
  "on_message (\<lambda>v. []) True 1000 [cmd_C2] ''device/AA:BB:CC/status'' (Some report_C2) =
     (Updated, [cmd_C2_done 1000])
   \<and> on_message (\<lambda>v. []) True 2000 [cmd_C2_done 1000] ''device/AA:BB:CC/status'' (Some report_C2) =
     (Updated, [cmd_C2_done 2000])
   \<and> executed_at (cmd_C2_done 2000) \<noteq> executed_at (cmd_C2_done 1000)"
  using report_C2_applied [of 1000 cmd_C2] report_C2_applied [of 2000 "cmd_C2_done 1000"]
  by (simp add: cmd_C2_id) (simp add: cmd_C2_done_def cmd_C2_def)

text \<open>
  Claim C3, amended. Apply the same status message twice, the store answering the first
  request. Then status, result and error message of every command record are the same
  after the second application as after the first. The execution timestamp is not: a
  second application that updates the record changes nothing but the execution timestamp
  of the command's records, which becomes the clock reading of that application; a second
  application that is dropped or refused changes nothing. So the whole state is the same
  whenever both applications read the same clock value.
\<close>

theorem report_replay:
  assumes first: "on_message ToString ok1 t1 its topic parsed = (o1, s1)"
    and second: "on_message ToString ok2 t2 s1 topic parsed = (o2, s2)"
    and ok1: "ok1"
  shows "(o2 \<noteq> Updated \<longrightarrow> s2 = s1)
       \<and> (o2 = Updated \<longrightarrow>
            (\<exists>i. s2 = map (\<lambda>c. if cmd_id c = i then c\<lparr>executed_at := Some t2\<rparr> else c) s1))
       \<and> map status s2 = map status s1
       \<and> map result s2 = map result s1
       \<and> map error_message s2 = map error_message s1
       \<and> (t2 = t1 \<longrightarrow> s2 = s1)"
proof -
  consider
    (dropped) out where "out \<noteq> Updated"
      "\<forall>ok t its. on_message ToString ok t its topic parsed = (out, its)"
  | (valid) i st r e where
      "\<forall>ok t its. on_message ToString ok t its topic parsed =
          (if ok \<and> i \<in> cmd_id ` set its then (Updated, map (overwrite i st r e t) its)
           else (DirectusApiError, its))"
    using on_message_normal_form [of ToString topic parsed] by blast
  then show ?thesis
  proof cases
    case dropped
    have "on_message ToString ok1 t1 its topic parsed = (out, its)"
      and "on_message ToString ok2 t2 s1 topic parsed = (out, s1)"
      using dropped(2) by blast+
    with first second dropped(1) show ?thesis by simp
  next
    case valid
    have e1: "on_message ToString ok1 t1 its topic parsed =
          (if ok1 \<and> i \<in> cmd_id ` set its then (Updated, map (overwrite i st r e t1) its)
           else (DirectusApiError, its))"
      using valid by blast
    have e2: "on_message ToString ok2 t2 s1 topic parsed =
          (if ok2 \<and> i \<in> cmd_id ` set s1 then (Updated, map (overwrite i st r e t2) s1)
           else (DirectusApiError, s1))"
      using valid by blast
    show ?thesis
    proof (cases "i \<in> cmd_id ` set its")
      case False
      with e1 first have "s1 = its" by simp
      with False e2 second have "s2 = s1" "o2 \<noteq> Updated" by simp_all
      then show ?thesis by simp
    next
      case True
      with e1 first ok1 have s1: "s1 = map (overwrite i st r e t1) its" by simp
      then have ids: "i \<in> cmd_id ` set s1" using True by (simp only: overwrite_ids)
      show ?thesis
      proof (cases ok2)
        case False
        with e2 second have "s2 = s1" "o2 \<noteq> Updated" by simp_all
        then show ?thesis by simp
      next
        case True
        with e2 second ids have o2: "o2 = Updated"
          and s2: "s2 = map (overwrite i st r e t2) s1" by simp_all
        have a: "s2 = map (\<lambda>c. if cmd_id c = i then c\<lparr>executed_at := Some t2\<rparr> else c) s1"
          unfolding s2 s1 by (simp add: overwrite_again)
        have b: "t2 = t1 \<Longrightarrow> s2 = s1"
          unfolding s2 s1 by (simp add: overwrite_same)
        from a have "map status s2 = map status s1" "map result s2 = map result s1"
          "map error_message s2 = map error_message s1"
          by simp_all
        with o2 a b show ?thesis by blast
      qed
    qed
  qed
qed

theorem report_replay_witness:
  "on_message (\<lambda>v. []) True 1000 [cmd_C2] ''device/AA:BB:CC/status'' (Some report_C2) =
     (Updated, [cmd_C2_done 1000])
   \<and> map status (snd (on_message (\<lambda>v. []) True 2000 [cmd_C2_done 1000]
                         ''device/AA:BB:CC/status'' (Some report_C2))) = [''completed'']
   \<and> map result (snd (on_message (\<lambda>v. []) True 2000 [cmd_C2_done 1000]
                         ''device/AA:BB:CC/status'' (Some report_C2))) = [JObj [(''ok'', JBool True)]]
   \<and> map error_message (snd (on_message (\<lambda>v. []) True 2000 [cmd_C2_done 1000]
                         ''device/AA:BB:CC/status'' (Some report_C2))) = [JNull]
   \<and> snd (on_message (\<lambda>v. []) True 1000 [cmd_C2_done 1000]
            ''device/AA:BB:CC/status'' (Some report_C2)) = [cmd_C2_done 1000]"
proof -
  have 1: "on_message (\<lambda>v. []) True 1000 [cmd_C2] ''device/AA:BB:CC/status'' (Some report_C2) =
     (Updated, [cmd_C2_done 1000])"
    using report_C2_applied [of 1000 cmd_C2] by (simp add: cmd_C2_id) (simp add: cmd_C2_done_def cmd_C2_def)
  have 2: "on_message (\<lambda>v. []) True t [cmd_C2_done 1000] ''device/AA:BB:CC/status'' (Some report_C2) =
      (fst (on_message (\<lambda>v. []) True t [cmd_C2_done 1000] ''device/AA:BB:CC/status'' (Some report_C2)),
       snd (on_message (\<lambda>v. []) True t [cmd_C2_done 1000] ''device/AA:BB:CC/status'' (Some report_C2)))"
    for t by simp
  have 3: "map status [cmd_C2_done 1000] = [''completed'']"
    "map result [cmd_C2_done 1000] = [JObj [(''ok'', JBool True)]]"
    "map error_message [cmd_C2_done 1000] = [JNull]"
    by (simp_all add: cmd_C2_done_def)
  show ?thesis
    using 1 3 report_replay [OF 1 2 [of 2000]] report_replay [OF 1 2 [of 1000]]
    by simp
qed

section \<open>The poll reconciler\<close>

subsection \<open>One command, and the events in between\<close>

lemma pollStep_cached:
  "recentlyPublished b (cmd_id c) \<noteq> None \<Longrightarrow> pollStep env b c = (b, SkippedCached, [])"
  by (simp add: pollStep_def)

lemma publishToMqtt_command:
  "publishToMqtt b be tp (command_payload c) =
     (if \<not> mqttConnected b then (Inl (Error ''MQTT broker not connected''), [])
      else (case be of
              Some err \<Rightarrow> (Inl (Error err), [MqttPublish tp (Json (command_payload c))])
            | None \<Rightarrow> (Inr (), [MqttPublish tp (Json (command_payload c))])))"
  by (cases be) (simp_all add: publishToMqtt_def command_payload_def)

lemma pollStep_cases:
  assumes "pollStep env b c = (b', out, fx)"
  shows "(recentlyPublished b (cmd_id c) \<noteq> None \<and> b' = b \<and> out = SkippedCached \<and> fx = [])
       \<or> (recentlyPublished b (cmd_id c) = None \<and> deviceMac_of c = None \<and> b' = b
            \<and> out = MarkedFailed \<and> fx = [DirectusPatch (cmd_id c) failed_patch (patch_ok env)])
       \<or> (recentlyPublished b (cmd_id c) = None \<and> deviceMac_of c \<noteq> None \<and> b' = b
            \<and> (\<exists>err. out = DispatchFailed err)
            \<and> (fx = [] \<or> (\<exists>mac. fx = [MqttPublish (JStr (command_topic mac)) (Json (command_payload c))])))
       \<or> (recentlyPublished b (cmd_id c) = None \<and> deviceMac_of c \<noteq> None
            \<and> b' = b\<lparr>recentlyPublished := (recentlyPublished b)(cmd_id c \<mapsto> clock env)\<rparr>
            \<and> out = Dispatched (clock env)
            \<and> (\<exists>mac. fx = [MqttPublish (JStr (command_topic mac)) (Json (command_payload c))]))"
  using assms
  by (auto simp: pollStep_def publishToMqtt_command split: if_splits option.splits)

lemma command_id_of_payload: "member_of (command_payload c) ''command_id'' = Some (JStr (cmd_id c))"
  by (simp add: command_payload_def)

lemma effect_cmd_command: "effect_cmd (MqttPublish tp (Json (command_payload c))) = Some (cmd_id c)"
  by (simp add: command_id_of_payload)

lemma pollStep_effects:
  assumes "pollStep env b c = (b', out, fx)" and "e \<in> set fx"
  shows "effect_cmd e = Some (cmd_id c)"
  using pollStep_cases [OF assms(1)] assms(2) by (auto simp: command_id_of_payload)

lemma pollStep_patch:
  assumes "pollStep env b c = (b', out, fx)" and "DirectusPatch i d ok \<in> set fx"
  shows "i = cmd_id c \<and> d = failed_patch \<and> ok = patch_ok env \<and> deviceMac_of c = None
         \<and> out = MarkedFailed"
  using pollStep_cases [OF assms(1)] assms(2) by auto

lemma pollStep_cache_other:
  assumes "pollStep env b c = (b', out, fx)" and "k \<noteq> cmd_id c"
  shows "recentlyPublished b' k = recentlyPublished b k"
  using pollStep_cases [OF assms(1)] assms(2) by auto

lemma pollStep_flags:
  assumes "pollStep env b c = (b', out, fx)"
  shows "mqttConnected b' = mqttConnected b \<and> isPolling b' = isPolling b"
  using pollStep_cases [OF assms(1)] by auto

lemma on_event_cache_None:
  "recentlyPublished b k = None \<Longrightarrow> recentlyPublished (on_event b e) k = None"
  by (cases e) (simp_all add: cleanup_def)

lemma events_cache_None:
  "recentlyPublished b k = None \<Longrightarrow> recentlyPublished (foldl on_event b evs) k = None"
  by (induction evs arbitrary: b) (simp_all add: on_event_cache_None)

lemma on_event_cache_keep:
  "recentlyPublished b k = Some ts \<Longrightarrow> tick_by (ts + PUBLISH_COOLDOWN) e
     \<Longrightarrow> recentlyPublished (on_event b e) k = Some ts"
  by (cases e) (simp_all add: cleanup_def)

lemma events_cache_keep:
  "recentlyPublished b k = Some ts \<Longrightarrow> ticks_by (ts + PUBLISH_COOLDOWN) evs
     \<Longrightarrow> recentlyPublished (foldl on_event b evs) k = Some ts"
  by (induction evs arbitrary: b) (simp_all add: ticks_by_def on_event_cache_keep)

lemma on_event_isPolling: "isPolling (on_event b e) = isPolling b"
  by (cases e) (simp_all add: cleanup_def)

lemma tick_by_mono: "tick_by l e \<Longrightarrow> l \<le> l' \<Longrightarrow> tick_by l' e"
  by (cases e) simp_all

lemma ticks_by_mono: "ticks_by l evs \<Longrightarrow> l \<le> l' \<Longrightarrow> ticks_by l' evs"
  by (induction evs) (auto simp: ticks_by_def intro: tick_by_mono)

subsection \<open>The loop and the cycle\<close>

lemma events_isPolling: "isPolling (foldl on_event b evs) = isPolling b"
  by (induction evs arbitrary: b) (simp_all add: on_event_isPolling)

lemma pollLoop_cached:
  assumes "pollLoop env i cmds b = (b', outs, fx)"
    and "recentlyPublished b k = Some ts"
    and "\<forall>j. ticks_by (ts + PUBLISH_COOLDOWN) (pre_events (env j))"
  shows "recentlyPublished b' k = Some ts
       \<and> Some k \<notin> effect_cmd ` set fx
       \<and> (\<forall>out. (k, out) \<in> set outs \<longrightarrow> out = SkippedCached)"
  using assms
proof (induction cmds arbitrary: i b b' outs fx)
  case Nil
  then show ?case by simp
next
  case (Cons c cmds)
  let ?b0 = "foldl on_event b (pre_events (env i))"
  obtain b1 out fx1 where step: "pollStep (env i) ?b0 c = (b1, out, fx1)"
    by (cases "pollStep (env i) ?b0 c") auto
  obtain b2 outs2 fx2 where rest: "pollLoop env (Suc i) cmds b1 = (b2, outs2, fx2)"
    by (cases "pollLoop env (Suc i) cmds b1") auto
  from Cons.prems(1) step rest
  have res: "b' = b2" "outs = (cmd_id c, out) # outs2" "fx = fx1 @ fx2" by simp_all
  have k0: "recentlyPublished ?b0 k = Some ts"
    using Cons.prems(2,3) by (simp add: events_cache_keep)
  have k1: "recentlyPublished b1 k = Some ts \<and> Some k \<notin> effect_cmd ` set fx1
            \<and> (cmd_id c = k \<longrightarrow> out = SkippedCached)"
  proof (cases "cmd_id c = k")
    case True
    with k0 step show ?thesis by (simp add: pollStep_cached)
  next
    case False
    then have "recentlyPublished b1 k = Some ts"
      using pollStep_cache_other [OF step, of k] k0 by simp
    moreover have "Some k \<notin> effect_cmd ` set fx1"
      using pollStep_effects [OF step] False by auto
    ultimately show ?thesis using False by simp
  qed
  from Cons.IH [OF rest] k1 Cons.prems(3)
  have "recentlyPublished b2 k = Some ts \<and> Some k \<notin> effect_cmd ` set fx2
       \<and> (\<forall>out. (k, out) \<in> set outs2 \<longrightarrow> out = SkippedCached)"
    by simp
  with k1 res show ?case by auto
qed

lemma pollLoop_dispatched:
  assumes "pollLoop env i cmds b = (b', outs, fx)"
    and "(k, Dispatched ts) \<in> set outs"
    and "\<forall>j. ticks_by (ts + PUBLISH_COOLDOWN) (pre_events (env j))"
  shows "recentlyPublished b' k = Some ts"
  using assms
proof (induction cmds arbitrary: i b b' outs fx)
  case Nil
  then show ?case by simp
next
  case (Cons c cmds)
  let ?b0 = "foldl on_event b (pre_events (env i))"
  obtain b1 out fx1 where step: "pollStep (env i) ?b0 c = (b1, out, fx1)"
    by (cases "pollStep (env i) ?b0 c") auto
  obtain b2 outs2 fx2 where rest: "pollLoop env (Suc i) cmds b1 = (b2, outs2, fx2)"
    by (cases "pollLoop env (Suc i) cmds b1") auto
  from Cons.prems(1) step rest
  have res: "b' = b2" "outs = (cmd_id c, out) # outs2" "fx = fx1 @ fx2" by simp_all
  show ?case
  proof (cases "(k, Dispatched ts) \<in> set outs2")
    case True
    from Cons.IH [OF rest True Cons.prems(3)] res show ?thesis by simp
  next
    case False
    with Cons.prems(2) res have here: "cmd_id c = k" "out = Dispatched ts" by auto
    from pollStep_cases [OF step] here have "recentlyPublished b1 k = Some ts" by auto
    from pollLoop_cached [OF rest this Cons.prems(3)] res show ?thesis by simp
  qed
qed

lemma pollLoop_effects:
  assumes "pollLoop env i cmds b = (b', outs, fx)"
  shows "effect_cmd ` set fx \<subseteq> Some ` cmd_id ` set cmds
       \<and> (\<forall>k d ok. DirectusPatch k d ok \<in> set fx \<longrightarrow>
             d = failed_patch \<and> (\<exists>j. ok = patch_ok (env j)) \<and> (k, MarkedFailed) \<in> set outs
             \<and> (\<exists>c \<in> set cmds. cmd_id c = k \<and> deviceMac_of c = None))
       \<and> map fst outs = map cmd_id cmds
       \<and> isPolling b' = isPolling b"
  using assms
proof (induction cmds arbitrary: i b b' outs fx)
  case Nil
  then show ?case by simp
next
  case (Cons c cmds)
  let ?b0 = "foldl on_event b (pre_events (env i))"
  obtain b1 out fx1 where step: "pollStep (env i) ?b0 c = (b1, out, fx1)"
    by (cases "pollStep (env i) ?b0 c") auto
  obtain b2 outs2 fx2 where rest: "pollLoop env (Suc i) cmds b1 = (b2, outs2, fx2)"
    by (cases "pollLoop env (Suc i) cmds b1") auto
  from Cons.prems(1) step rest
  have res: "b' = b2" "outs = (cmd_id c, out) # outs2" "fx = fx1 @ fx2" by simp_all
  have p0: "isPolling ?b0 = isPolling b"
    by (rule events_isPolling)
  note ih = Cons.IH [OF rest]
  have a: "effect_cmd ` set fx \<subseteq> Some ` cmd_id ` set (c # cmds)"
    using ih pollStep_effects [OF step] res by auto
  have b: "\<forall>k d ok. DirectusPatch k d ok \<in> set fx \<longrightarrow>
             d = failed_patch \<and> (\<exists>j. ok = patch_ok (env j)) \<and> (k, MarkedFailed) \<in> set outs
             \<and> (\<exists>c' \<in> set (c # cmds). cmd_id c' = k \<and> deviceMac_of c' = None)"
  proof (intro allI impI)
    fix k d ok
    assume "DirectusPatch k d ok \<in> set fx"
    then consider "DirectusPatch k d ok \<in> set fx1" | "DirectusPatch k d ok \<in> set fx2"
      using res by auto
    then show "d = failed_patch \<and> (\<exists>j. ok = patch_ok (env j)) \<and> (k, MarkedFailed) \<in> set outs
             \<and> (\<exists>c' \<in> set (c # cmds). cmd_id c' = k \<and> deviceMac_of c' = None)"
    proof cases
      case 1
      from pollStep_patch [OF step 1] res show ?thesis by auto
    next
      case 2
      with ih res show ?thesis by auto
    qed
  qed
  have c: "map fst outs = map cmd_id (c # cmds)" using ih res by simp
  have d: "isPolling b' = isPolling b"
    using ih res pollStep_flags [OF step] p0 by simp
  from a b c d show ?case by blast
qed


lemma pollPendingCommands_cases:
  assumes "pollPendingCommands api fetched env b = (b', outs, fx)"
  shows "(outs = [] \<and> fx = [] \<and> recentlyPublished b' = recentlyPublished b
            \<and> mqttConnected b' = mqttConnected b)
       \<or> (\<exists>cmds b1. fetched = Inr cmds \<and> api \<and> mqttConnected b \<and> \<not> isPolling b
            \<and> pollLoop env 0 cmds (b\<lparr>isPolling := True\<rparr>) = (b1, outs, fx)
            \<and> b' = b1\<lparr>isPolling := False\<rparr>)"
  using assms
  by (auto simp: pollPendingCommands_def split: if_splits sum.splits prod.splits)

lemma cycle_cached:
  assumes "pollPendingCommands api fetched env b = (b', outs, fx)"
    and "recentlyPublished b k = Some ts"
    and "\<forall>j. ticks_by (ts + PUBLISH_COOLDOWN) (pre_events (env j))"
  shows "recentlyPublished b' k = Some ts
       \<and> Some k \<notin> effect_cmd ` set fx
       \<and> (\<forall>out. (k, out) \<in> set outs \<longrightarrow> out = SkippedCached)"
proof -
  from pollPendingCommands_cases [OF assms(1)]
  consider "outs = []" "fx = []" "recentlyPublished b' = recentlyPublished b"
    | cmds b1 where "pollLoop env 0 cmds (b\<lparr>isPolling := True\<rparr>) = (b1, outs, fx)"
        "b' = b1\<lparr>isPolling := False\<rparr>"
    by blast
  then show ?thesis
  proof cases
    case 1
    with assms(2) show ?thesis by simp
  next
    case 2
    from pollLoop_cached [OF 2(1) _ assms(3), of k] assms(2) 2(2) show ?thesis by simp
  qed
qed

lemma cycle_dispatched:
  assumes "pollPendingCommands api fetched env b = (b', outs, fx)"
    and "(k, Dispatched ts) \<in> set outs"
    and "\<forall>j. ticks_by (ts + PUBLISH_COOLDOWN) (pre_events (env j))"
  shows "recentlyPublished b' k = Some ts"
proof -
  from pollPendingCommands_cases [OF assms(1)] assms(2)
  obtain cmds b1 where l: "pollLoop env 0 cmds (b\<lparr>isPolling := True\<rparr>) = (b1, outs, fx)"
      "b' = b1\<lparr>isPolling := False\<rparr>"
    by auto
  from pollLoop_dispatched [OF l(1) assms(2,3)] l(2) show ?thesis by simp
qed

lemma deviceMac_C2: "deviceMac_of cmd_C2 = Some ''AA:BB:CC''" "cmd_id cmd_C2 = ''C2''"
  by (simp_all add: deviceMac_of_def cmd_C2_def)

lemma first_cycle_C2:
  "pollPendingCommands True (Inr [cmd_C2]) (\<lambda>i. env_ok t) bridge_up =
     (bridge_C2 t, [(''C2'', Dispatched t)],
      [MqttPublish (JStr ''device/AA:BB:CC/commands'') (Json (command_payload cmd_C2))])"
  by (simp add: pollPendingCommands_def pollStep_def publishToMqtt_command deviceMac_C2
        bridge_up_def bridge_C2_def env_ok_def command_topic_def)

lemma cycle_on_cached_C2:
  "pollPendingCommands True (Inr [cmd_C2]) (\<lambda>i. env_ok t') (bridge_C2 t) =
     (bridge_C2 t, [(''C2'', SkippedCached)], [])"
  by (simp add: pollPendingCommands_def pollStep_def deviceMac_C2 bridge_C2_def bridge_up_def
        env_ok_def)

section \<open>The dedup map\<close>

text \<open>
  Claim C1. Take two reconciliation cycles, with any events between them. If the first
  cycle dispatched the command \<open>k\<close> successfully, storing the clock reading \<open>ts\<close>, and the
  second cycle runs within the cooldown window of that dispatch (every run of the cleanup
  timer up to the end of the second cycle reads a clock value \<open>t_end\<close> at most, and
  \<open>t_end - ts\<close> is at most the cooldown of 30 seconds), then the second cycle makes no call
  about \<open>k\<close>: it does not publish it, every occurrence of \<open>k\<close> in its batch is skipped, and
  the entry of \<open>k\<close> is still in the dedup map afterwards. The step behind it
  (\<open>pollStep_cached\<close>): a command whose identifier has an entry is skipped.
\<close>

theorem no_redispatch_within_cooldown:
  assumes first: "pollPendingCommands directusApi fetched1 env1 b0 = (b1, outs1, fx1)"
    and dispatched: "(k, Dispatched ts) \<in> set outs1"
    and second: "pollPendingCommands directusApi fetched2 env2 (foldl on_event b1 evs) =
                   (b2, outs2, fx2)"
    and window: "t_end - ts \<le> PUBLISH_COOLDOWN"
    and ticks1: "\<forall>j. ticks_by t_end (pre_events (env1 j))"
    and ticks: "ticks_by t_end evs"
    and ticks2: "\<forall>j. ticks_by t_end (pre_events (env2 j))"
  shows "Some k \<notin> effect_cmd ` set fx2
       \<and> (\<forall>out. (k, out) \<in> set outs2 \<longrightarrow> out = SkippedCached)
       \<and> recentlyPublished b2 k = Some ts"
proof -
  have le: "t_end \<le> ts + PUBLISH_COOLDOWN" using window by simp
  have w1: "\<forall>j. ticks_by (ts + PUBLISH_COOLDOWN) (pre_events (env1 j))"
    using ticks1 le by (blast intro: ticks_by_mono)
  have w2: "\<forall>j. ticks_by (ts + PUBLISH_COOLDOWN) (pre_events (env2 j))"
    using ticks2 le by (blast intro: ticks_by_mono)
  have w: "ticks_by (ts + PUBLISH_COOLDOWN) evs"
    using ticks le by (rule ticks_by_mono)
  have "recentlyPublished b1 k = Some ts"
    using cycle_dispatched [OF first dispatched w1] .
  then have "recentlyPublished (foldl on_event b1 evs) k = Some ts"
    using w by (rule events_cache_keep)
  from cycle_cached [OF second this w2] show ?thesis by simp
qed

theorem no_redispatch_within_cooldown_witness:
  "pollPendingCommands True (Inr [cmd_C2]) (\<lambda>i. env_ok 1000) bridge_up =
     (bridge_C2 1000, [(''C2'', Dispatched 1000)],
      [MqttPublish (JStr ''device/AA:BB:CC/commands'') (Json (command_payload cmd_C2))])
   \<and> 6000 - 1000 \<le> PUBLISH_COOLDOWN
   \<and> Some ''C2'' \<notin> effect_cmd ` set (snd (snd
        (pollPendingCommands True (Inr [cmd_C2]) (\<lambda>i. env_ok 6000)
           (foldl on_event (bridge_C2 1000) [CleanupTick 4000]))))
   \<and> (''C2'', Dispatched 6000) \<notin> set (fst (snd
        (pollPendingCommands True (Inr [cmd_C2]) (\<lambda>i. env_ok 6000)
           (foldl on_event (bridge_C2 1000) [CleanupTick 4000]))))
   \<and> recentlyPublished (fst
        (pollPendingCommands True (Inr [cmd_C2]) (\<lambda>i. env_ok 6000)
           (foldl on_event (bridge_C2 1000) [CleanupTick 4000]))) ''C2'' = Some 1000"
proof -
  let ?second = "pollPendingCommands True (Inr [cmd_C2]) (\<lambda>i. env_ok 6000)
           (foldl on_event (bridge_C2 1000) [CleanupTick 4000])"
  have d: "(''C2'', Dispatched 1000) \<in> set [(''C2'', Dispatched 1000)]" by simp
  have s: "?second = (fst ?second, fst (snd ?second), snd (snd ?second))" by simp
  have w: "6000 - 1000 \<le> PUBLISH_COOLDOWN" by (simp add: PUBLISH_COOLDOWN_def)
  have t1: "\<forall>j. ticks_by 6000 (pre_events (env_ok 1000))"
    and t2: "\<forall>j. ticks_by 6000 (pre_events (env_ok 6000))"
    and t: "ticks_by 6000 [CleanupTick 4000]"
    by (simp_all add: ticks_by_def env_ok_def)
  from no_redispatch_within_cooldown [OF first_cycle_C2 d s w t1 t t2] first_cycle_C2 [of 1000] w
  show ?thesis by auto
qed

text \<open>
  Claim C2 does not hold of the code. The reconciler's test is
  \<^verbatim>\<open>recentlyPublished.has(cmd.id)\<close>: it never looks at the entry's age, and only the
  cleanup timer, which runs once a minute, compares the age with the cooldown. \<open>C2\<close> is
  dispatched at clock reading 1000; a cycle at 46000, 45 seconds later and before any
  run of the cleanup timer, finds the entry, older than the cooldown of 30 seconds, and
  skips the command.
\<close>

theorem stale_entry_blocks_dispatch:
  "pollPendingCommands True (Inr [cmd_C2]) (\<lambda>i. env_ok 1000) bridge_up =
     (bridge_C2 1000, [(''C2'', Dispatched 1000)],
      [MqttPublish (JStr ''device/AA:BB:CC/commands'') (Json (command_payload cmd_C2))])
   \<and> PUBLISH_COOLDOWN < 46000 - 1000
   \<and> pollPendingCommands True (Inr [cmd_C2]) (\<lambda>i. env_ok 46000) (bridge_C2 1000) =
     (bridge_C2 1000, [(''C2'', SkippedCached)], [])"
  by (simp add: first_cycle_C2 cycle_on_cached_C2 PUBLISH_COOLDOWN_def)

subsection \<open>Where the entries of the dedup map come from\<close>










lemma marked_cycle_C1:
  "pollPendingCommands True (Inr [cmd_C1]) (\<lambda>i. env_ok t) bridge_up =
     (bridge_up, [(''C1'', MarkedFailed)], [DirectusPatch ''C1'' failed_patch True])"
  by (simp add: pollPendingCommands_def pollStep_def deviceMac_of_def cmd_C1_def
        bridge_up_def env_ok_def)

lemma pending_C1: "directus_get_pending [cmd_C1] = [cmd_C1]"
  by (simp add: directus_get_pending_def cmd_C1_def)

lemma patched_C1: "directus_patch True [cmd_C1] ''C1'' failed_patch = Inr [cmd_C1_failed]"
  by (simp add: directus_patch_def apply_patch_def failed_patch_def cmd_C1_def cmd_C1_failed_def)

section \<open>Who writes the command record\<close>

text \<open>
  Claim C5, as stated, fails: the reconciler itself writes status and error message, with
  no device report involved. A cycle that finds the pending command \<open>C1\<close>, whose device
  has no address, patches its status to failed and sets its error message.
\<close>

theorem reconciler_marks_failed:
  "sys_step True (\<lambda>v. []) \<lparr>bridge_st = bridge_up, store = [cmd_C1]\<rparr> (Cycle True (\<lambda>i. env_ok 1000)) =
     (\<lparr>bridge_st = bridge_up, store = [cmd_C1_failed]\<rparr>,
      [DirectusPatch ''C1'' failed_patch True])
   \<and> status cmd_C1 = ''pending'' \<and> status cmd_C1_failed = ''failed''
   \<and> error_message cmd_C1 = JNull
   \<and> error_message cmd_C1_failed = JStr ''Device has no MAC address configured''"
proof -
  have "sys_step True (\<lambda>v. []) \<lparr>bridge_st = bridge_up, store = [cmd_C1]\<rparr>
          (Cycle True (\<lambda>i. env_ok 1000)) =
        (\<lparr>bridge_st = bridge_up, store = [cmd_C1_failed]\<rparr>,
         [DirectusPatch ''C1'' failed_patch True])"
    by (simp add: pending_C1 marked_cycle_C1 patched_C1)
  moreover have "status cmd_C1 = ''pending''" "status cmd_C1_failed = ''failed''"
    "error_message cmd_C1 = JNull"
    "error_message cmd_C1_failed = JStr ''Device has no MAC address configured''"
    by (simp_all add: cmd_C1_def cmd_C1_failed_def)
  ultimately show ?thesis by simp
qed

text \<open>
  Claim C5, amended. The bridge makes exactly one kind of write to a command record:
  every patch a reconciliation cycle sends sets status to failed and the error message to
  \<^verbatim>\<open>Device has no MAC address configured\<close>, leaves result and execution timestamp
  alone, and goes to a command of the cycle's batch whose device has no address (the
  branch the cycle took for it is the one that marks it failed, not a dispatch or a
  skip). The trigger route sends no patch at all: its only outward calls are publishes.
  Every other write of the four fields is the status consumer's, driven by a device's
  report.
\<close>

theorem reconciler_writes:
  assumes "pollPendingCommands directusApi fetched env b = (b', outs, fx)"
  shows "(\<forall>k d ok. DirectusPatch k d ok \<in> set fx \<longrightarrow>
            d = failed_patch \<and> (k, MarkedFailed) \<in> set outs
            \<and> (\<exists>cmds c. fetched = Inr cmds \<and> c \<in> set cmds \<and> cmd_id c = k
                  \<and> deviceMac_of c = None))
       \<and> p_status failed_patch = Some ''failed''
       \<and> p_error_message failed_patch = Some (JStr ''Device has no MAC address configured'')
       \<and> p_result failed_patch = None \<and> p_executed_at failed_patch = None
       \<and> (\<forall>e \<in> set (snd (publish_route secret b berr t req)). is_publish e)"
proof -
  have a: "\<forall>k d ok. DirectusPatch k d ok \<in> set fx \<longrightarrow>
            d = failed_patch \<and> (k, MarkedFailed) \<in> set outs
            \<and> (\<exists>cmds c. fetched = Inr cmds \<and> c \<in> set cmds \<and> cmd_id c = k
                  \<and> deviceMac_of c = None)"
  proof (intro allI impI)
    fix k d ok
    assume p: "DirectusPatch k d ok \<in> set fx"
    with pollPendingCommands_cases [OF assms]
    obtain cmds l where f: "fetched = Inr cmds"
      and loop: "pollLoop env 0 cmds (b\<lparr>isPolling := True\<rparr>) = (l, outs, fx)"
      by auto
    from pollLoop_effects [OF loop] p
    have "d = failed_patch \<and> (k, MarkedFailed) \<in> set outs
          \<and> (\<exists>c \<in> set cmds. cmd_id c = k \<and> deviceMac_of c = None)" by blast
    with f show "d = failed_patch \<and> (k, MarkedFailed) \<in> set outs
            \<and> (\<exists>cmds c. fetched = Inr cmds \<and> c \<in> set cmds \<and> cmd_id c = k
                  \<and> deviceMac_of c = None)" by blast
  qed
  have r: "\<forall>e \<in> set (snd (publish_route secret b berr t req)). is_publish e"
    by (auto simp: publish_route_def publish_handler_def publishToMqtt_def Let_def
             split: option.splits if_splits prod.splits sum.splits)
  from a r show ?thesis by (simp add: failed_patch_def)
qed

theorem reconciler_writes_witness:
  "pollPendingCommands True (Inr [cmd_C1]) (\<lambda>i. env_ok 1000) bridge_up =
     (bridge_up, [(''C1'', MarkedFailed)], [DirectusPatch ''C1'' failed_patch True])
   \<and> deviceMac_of cmd_C1 = None
   \<and> DirectusPatch ''C2'' failed_patch True \<notin> set (snd (snd
        (pollPendingCommands True (Inr [cmd_C2]) (\<lambda>i. env_ok 1000) bridge_up)))
   \<and> is_publish (MqttPublish (JStr ''device/AA:BB:CC/commands'')
                   (Json (JObj [(''command_id'', JStr ''C2'')])))"
proof -
  let ?c = "pollPendingCommands True (Inr [cmd_C2]) (\<lambda>i. env_ok 1000) bridge_up"
  have s: "?c = (fst ?c, fst (snd ?c), snd (snd ?c))" by simp
  have o: "fst (snd ?c) = [(''C2'', Dispatched 1000)]" by (simp add: first_cycle_C2)
  have m: "deviceMac_of cmd_C1 = None" by (simp add: deviceMac_of_def cmd_C1_def)
  from reconciler_writes [OF s] o
  have "DirectusPatch ''C2'' failed_patch True \<notin> set (snd (snd ?c))" by auto
  with marked_cycle_C1 [of 1000] m show ?thesis by simp
qed

section \<open>A command whose device has no address\<close>

subsection \<open>The patch of a cycle and its effect on the store\<close>

lemma calls_about_append: "calls_about k (xs @ ys) = calls_about k xs @ calls_about k ys"
  by (simp add: calls_about_def)

lemma calls_about_none: "Some k \<notin> effect_cmd ` set fx \<Longrightarrow> calls_about k fx = []"
  by (force simp: calls_about_def filter_empty_conv image_iff)

lemma pollLoop_marks_once:
  assumes "pollLoop env i cmds b = (b', outs, fx)"
    and "distinct (map cmd_id cmds)" and "c \<in> set cmds"
    and "deviceMac_of c = None" and "recentlyPublished b (cmd_id c) = None"
  shows "\<exists>j. calls_about (cmd_id c) fx = [DirectusPatch (cmd_id c) failed_patch (patch_ok (env j))]"
  using assms
proof (induction cmds arbitrary: i b b' outs fx)
  case Nil
  then show ?case by simp
next
  case (Cons c' cmds)
  let ?b0 = "foldl on_event b (pre_events (env i))"
  obtain b1 out fx1 where step: "pollStep (env i) ?b0 c' = (b1, out, fx1)"
    by (cases "pollStep (env i) ?b0 c'") auto
  obtain b2 outs2 fx2 where rest: "pollLoop env (Suc i) cmds b1 = (b2, outs2, fx2)"
    by (cases "pollLoop env (Suc i) cmds b1") auto
  from Cons.prems(1) step rest
  have res: "b' = b2" "outs = (cmd_id c', out) # outs2" "fx = fx1 @ fx2" by simp_all
  have k0: "recentlyPublished ?b0 (cmd_id c) = None"
    using Cons.prems(5) by (rule events_cache_None)
  show ?case
  proof (cases "c' = c")
    case True
    with pollStep_cases [OF step] k0 Cons.prems(4)
    have fx1: "fx1 = [DirectusPatch (cmd_id c) failed_patch (patch_ok (env i))]" by auto
    have "cmd_id c \<notin> cmd_id ` set cmds" using Cons.prems(2) True by auto
    with pollLoop_effects [OF rest] have "Some (cmd_id c) \<notin> effect_cmd ` set fx2" by auto
    then have "calls_about (cmd_id c) fx2 = []" by (rule calls_about_none)
    with fx1 res have "calls_about (cmd_id c) fx =
        [DirectusPatch (cmd_id c) failed_patch (patch_ok (env i))]"
      by (simp add: calls_about_append) (simp add: calls_about_def)
    then show ?thesis by blast
  next
    case False
    with Cons.prems(3) have tail: "c \<in> set cmds" by simp
    then have "cmd_id c \<in> cmd_id ` set cmds" by (rule imageI)
    with Cons.prems(2) have ne: "cmd_id c \<noteq> cmd_id c'" by auto
    have "recentlyPublished b1 (cmd_id c) = None"
      using pollStep_cache_other [OF step ne] k0 by simp
    from Cons.IH [OF rest _ tail Cons.prems(4) this] Cons.prems(2)
    obtain j where j: "calls_about (cmd_id c) fx2 =
        [DirectusPatch (cmd_id c) failed_patch (patch_ok (env j))]" by auto
    have "Some (cmd_id c) \<notin> effect_cmd ` set fx1"
      using pollStep_effects [OF step] ne by auto
    then have "calls_about (cmd_id c) fx1 = []" by (rule calls_about_none)
    with j res have "calls_about (cmd_id c) fx =
        [DirectusPatch (cmd_id c) failed_patch (patch_ok (env j))]"
      by (simp add: calls_about_append)
    then show ?thesis by blast
  qed
qed

lemma pending_subset: "set (directus_get_pending its) \<subseteq> {r \<in> set its. status r = ''pending''}"
  by (auto simp: directus_get_pending_def dest: in_set_takeD)

lemma pending_distinct:
  assumes "distinct (map cmd_id its)"
  shows "distinct (map cmd_id (directus_get_pending its))"
proof -
  let ?f = "filter (\<lambda>c. status c = ''pending'') its"
  have "distinct (map cmd_id ?f)" using assms by (rule distinct_map_filter)
  then have "distinct (map cmd_id (sort_key date_created ?f))" by (simp add: distinct_map)
  then have "distinct (take 10 (map cmd_id (sort_key date_created ?f)))" by (rule distinct_take)
  then show ?thesis by (simp add: directus_get_pending_def take_map)
qed


lemma apply_effect_ids: "map cmd_id (apply_effect its e) = map cmd_id its"
  by (cases e) (auto simp: directus_patch_def cmd_id_apply_patch)


lemma apply_failed_patch:
  "status (apply_patch failed_patch r) = ''failed''"
  "error_message (apply_patch failed_patch r) = JStr ''Device has no MAC address configured''"
  by (simp_all add: apply_patch_def failed_patch_def)

lemma apply_effect_marks:
  assumes "k \<in> cmd_id ` set its"
  shows "marked k (apply_effect its (DirectusPatch k failed_patch True))"
  using assms by (auto simp: marked_def directus_patch_def apply_failed_patch)

lemma apply_effect_failed_cases:
  assumes "r' \<in> set (apply_effect its e)"
    and "\<forall>i d ok. e = DirectusPatch i d ok \<longrightarrow> d = failed_patch"
  shows "r' \<in> set its \<or> (\<exists>r \<in> set its. r' = apply_patch failed_patch r)"
  using assms by (cases e) (auto simp: directus_patch_def split: if_splits)

lemma apply_effect_keeps_marked:
  assumes "marked k its" and "\<forall>i d ok. e = DirectusPatch i d ok \<longrightarrow> d = failed_patch"
  shows "marked k (apply_effect its e)"
  unfolding marked_def
proof (intro ballI impI)
  fix r' assume r': "r' \<in> set (apply_effect its e)" and k: "cmd_id r' = k"
  from apply_effect_failed_cases [OF r' assms(2)]
  show "status r' = ''failed'' \<and> error_message r' = JStr ''Device has no MAC address configured''"
    using assms(1) k by (auto simp: marked_def apply_failed_patch)
qed

lemma apply_effect_keeps_settled:
  assumes "settled k its" and "\<forall>i d ok. e = DirectusPatch i d ok \<longrightarrow> d = failed_patch"
  shows "settled k (apply_effect its e)"
  unfolding settled_def
proof (intro ballI impI)
  fix r' assume r': "r' \<in> set (apply_effect its e)" and k: "cmd_id r' = k"
  from apply_effect_failed_cases [OF r' assms(2)]
  show "status r' \<noteq> ''pending''"
    using assms(1) k by (auto simp: settled_def apply_failed_patch)
qed

lemma apply_effects_keep_marked:
  assumes "marked k its" and "\<forall>i d ok. DirectusPatch i d ok \<in> set fx \<longrightarrow> d = failed_patch"
  shows "marked k (foldl apply_effect its fx)"
  using assms
proof (induction fx arbitrary: its)
  case Nil
  then show ?case by simp
next
  case (Cons e fx)
  have head: "marked k (apply_effect its e)"
    using Cons.prems by (intro apply_effect_keeps_marked) auto
  have tail: "\<forall>i d ok. DirectusPatch i d ok \<in> set fx \<longrightarrow> d = failed_patch"
    using Cons.prems(2) by auto
  from Cons.IH [OF head tail] show ?case by simp
qed

lemma apply_effects_keep_settled:
  assumes "settled k its" and "\<forall>i d ok. DirectusPatch i d ok \<in> set fx \<longrightarrow> d = failed_patch"
  shows "settled k (foldl apply_effect its fx)"
  using assms
proof (induction fx arbitrary: its)
  case Nil
  then show ?case by simp
next
  case (Cons e fx)
  have head: "settled k (apply_effect its e)"
    using Cons.prems by (intro apply_effect_keeps_settled) auto
  have tail: "\<forall>i d ok. DirectusPatch i d ok \<in> set fx \<longrightarrow> d = failed_patch"
    using Cons.prems(2) by auto
  from Cons.IH [OF head tail] show ?case by simp
qed

lemma apply_effects_mark:
  assumes "DirectusPatch k failed_patch True \<in> set fx"
    and "\<forall>i d ok. DirectusPatch i d ok \<in> set fx \<longrightarrow> d = failed_patch"
    and "k \<in> cmd_id ` set its"
  shows "marked k (foldl apply_effect its fx)"
  using assms
proof (induction fx arbitrary: its)
  case Nil
  then show ?case by simp
next
  case (Cons e fx)
  show ?case
  proof (cases "e = DirectusPatch k failed_patch True")
    case True
    then have "marked k (apply_effect its e)" using Cons.prems(3) by (simp only: apply_effect_marks)
    then have "marked k (foldl apply_effect (apply_effect its e) fx)"
      using Cons.prems(2) by (intro apply_effects_keep_marked) auto
    then show ?thesis by simp
  next
    case False
    with Cons.prems(1) have "DirectusPatch k failed_patch True \<in> set fx" by simp
    moreover have "k \<in> cmd_id ` set (apply_effect its e)"
      using Cons.prems(3) apply_effect_ids [of its e] by (metis set_map)
    ultimately have "marked k (foldl apply_effect (apply_effect its e) fx)"
      using Cons.prems(2) by (intro Cons.IH) auto
    then show ?thesis by simp
  qed
qed

lemma marked_settled: "marked k its \<Longrightarrow> settled k its"
  by (auto simp: marked_def settled_def)

lemma on_message_keeps_settled:
  assumes "settled k its"
  shows "settled k (snd (on_message ToString ok t its topic parsed))"
proof -
  consider
    (dropped) out where "\<forall>ok t its. on_message ToString ok t its topic parsed = (out, its)"
  | (valid) i st r e where "JStr st \<in> set validStatuses"
      "\<forall>ok t its. on_message ToString ok t its topic parsed =
          (if ok \<and> i \<in> cmd_id ` set its then (Updated, map (overwrite i st r e t) its)
           else (DirectusApiError, its))"
    using on_message_normal_form [of ToString topic parsed] by blast
  then show ?thesis
  proof cases
    case dropped
    then have "on_message ToString ok t its topic parsed = (out, its)" by blast
    with assms show ?thesis by simp
  next
    case valid
    from valid(1) have st: "st \<noteq> ''pending''" by (auto simp: validStatuses_def)
    have e: "on_message ToString ok t its topic parsed =
          (if ok \<and> i \<in> cmd_id ` set its then (Updated, map (overwrite i st r e t) its)
           else (DirectusApiError, its))"
      using valid(2) by blast
    have "settled k (map (overwrite i st r e t) its)"
      using assms st by (auto simp: settled_def overwrite_def)
    with e assms show ?thesis by simp
  qed
qed

lemma cycle_patches_failed:
  assumes "pollPendingCommands api fetched env b = (b', outs, fx)"
  shows "\<forall>i d ok. DirectusPatch i d ok \<in> set fx \<longrightarrow> d = failed_patch"
proof (intro allI impI)
  fix i d ok
  assume p: "DirectusPatch i d ok \<in> set fx"
  with pollPendingCommands_cases [OF assms]
  obtain cmds l where "pollLoop env 0 cmds (b\<lparr>isPolling := True\<rparr>) = (l, outs, fx)" by auto
  from pollLoop_effects [OF this] p show "d = failed_patch" by blast
qed

lemma cycle_calls_in_batch:
  assumes "pollPendingCommands api (Inr cmds) env b = (b', outs, fx)"
  shows "effect_cmd ` set fx \<subseteq> Some ` cmd_id ` set cmds"
proof (cases "fx = []")
  case True
  then show ?thesis by simp
next
  case False
  with pollPendingCommands_cases [OF assms]
  obtain l where "pollLoop env 0 cmds (b\<lparr>isPolling := True\<rparr>) = (l, outs, fx)" by auto
  from pollLoop_effects [OF this] show ?thesis by blast
qed

lemma sys_step_settled:
  assumes "sys_step api ToString s a = (s', fx)" and "settled k (store s)"
  shows "settled k (store s') \<and> calls_about k fx = []"
proof (cases a)
  case (Cycle fetch_ok env)
  let ?fetched = "if fetch_ok then Inr (directus_get_pending (store s)) else Inl AxiosError"
  obtain b' outs where c: "pollPendingCommands api ?fetched env (bridge_st s) = (b', outs, fx)"
    and s': "s' = \<lparr>bridge_st = b', store = foldl apply_effect (store s) fx\<rparr>"
    using assms(1) Cycle by (auto split: prod.splits)
  have a: "settled k (store s')"
    using apply_effects_keep_settled [OF assms(2) cycle_patches_failed [OF c]] s' by simp
  have b: "calls_about k fx = []"
  proof (cases fetch_ok)
    case True
    with c have "effect_cmd ` set fx \<subseteq> Some ` cmd_id ` set (directus_get_pending (store s))"
      using cycle_calls_in_batch by simp
    moreover have "k \<notin> cmd_id ` set (directus_get_pending (store s))"
      using pending_subset [of "store s"] assms(2) by (auto simp: settled_def)
    ultimately have "Some k \<notin> effect_cmd ` set fx" by auto
    then show ?thesis by (rule calls_about_none)
  next
    case False
    with c have "fx = []" by (auto simp: pollPendingCommands_def split: if_splits)
    then show ?thesis by (simp add: calls_about_def)
  qed
  from a b show ?thesis by simp
next
  case (Report ok t topic parsed)
  with assms(1) have "s' = s\<lparr>store := snd (on_message ToString ok t (store s) topic parsed)\<rparr>"
    and "fx = []" by auto
  with on_message_keeps_settled [OF assms(2)] show ?thesis by (simp add: calls_about_def)
next
  case (Ev e)
  with assms show ?thesis by (auto simp: calls_about_def)
qed

lemma sys_run_settled:
  assumes "sys_run api ToString s acts = (s', fx)" and "settled k (store s)"
  shows "settled k (store s') \<and> calls_about k fx = []"
  using assms
proof (induction acts arbitrary: s s' fx)
  case Nil
  then show ?case by (simp add: calls_about_def)
next
  case (Cons a acts)
  obtain s1 fx1 where step: "sys_step api ToString s a = (s1, fx1)"
    by (cases "sys_step api ToString s a") auto
  obtain s2 fx2 where rest: "sys_run api ToString s1 acts = (s2, fx2)"
    by (cases "sys_run api ToString s1 acts") auto
  from Cons.prems(1) step rest have res: "s' = s2" "fx = fx1 @ fx2" by simp_all
  from sys_step_settled [OF step Cons.prems(2)]
  have 1: "settled k (store s1)" "calls_about k fx1 = []" by simp_all
  from Cons.IH [OF rest 1(1)] 1(2) res show ?case by (simp add: calls_about_append)
qed


lemma marking_step_C1:
  "sys_step True ToString \<lparr>bridge_st = bridge_up, store = [cmd_C1]\<rparr> (Cycle True (\<lambda>i. env_ok t)) =
     (\<lparr>bridge_st = bridge_up, store = [cmd_C1_failed]\<rparr>, [DirectusPatch ''C1'' failed_patch True])"
  by (simp add: pending_C1 marked_cycle_C1 patched_C1)

lemma refused_cycle_C1:
  "pollPendingCommands True (Inr [cmd_C1]) (\<lambda>i. env_store_down t) bridge_up =
     (bridge_up, [(''C1'', MarkedFailed)], [DirectusPatch ''C1'' failed_patch False])"
  by (simp add: pollPendingCommands_def pollStep_def deviceMac_of_def cmd_C1_def
        bridge_up_def env_store_down_def)

lemma refused_C1: "directus_patch False [cmd_C1] ''C1'' failed_patch = Inl AxiosError"
  by (simp add: directus_patch_def)

lemma refused_step_C1:
  "sys_step True ToString \<lparr>bridge_st = bridge_up, store = [cmd_C1]\<rparr>
      (Cycle True (\<lambda>i. env_store_down t)) =
     (\<lparr>bridge_st = bridge_up, store = [cmd_C1]\<rparr>, [DirectusPatch ''C1'' failed_patch False])"
  by (simp add: pending_C1 refused_cycle_C1 refused_C1)

subsection \<open>The store after a cycle\<close>

text \<open>
  Every patch of a cycle is the one that marks a command as failed, so the store after the
  cycle is the store before it with that patch applied to the commands whose patch the
  store accepted.
\<close>

lemma mark_failed_empty: "mark_failed {} r = r"
  by (simp add: mark_failed_def)

lemma map_mark_failed_empty: "map (mark_failed {}) its = its"
  by (rule map_idI) (rule mark_failed_empty)

lemma cmd_id_mark_failed: "cmd_id (mark_failed A r) = cmd_id r"
  by (simp add: mark_failed_def cmd_id_apply_patch)

lemma apply_failed_patch_twice:
  "apply_patch failed_patch (apply_patch failed_patch r) = apply_patch failed_patch r"
  by (simp add: apply_patch_def failed_patch_def)

lemma mark_failed_union: "mark_failed B (mark_failed A r) = mark_failed (A \<union> B) r"
  by (simp add: mark_failed_def cmd_id_apply_patch apply_failed_patch_twice)

lemma mark_failed_other: "cmd_id r \<notin> A \<Longrightarrow> mark_failed A r = r"
  by (simp add: mark_failed_def)


lemma apply_effect_mark_failed:
  assumes "\<forall>i d ok. e = DirectusPatch i d ok \<longrightarrow> d = failed_patch"
  shows "apply_effect its e = map (mark_failed (set (accepted_id e))) its"
proof (cases e)
  case (MqttPublish t m)
  then show ?thesis by (simp add: map_mark_failed_empty)
next
  case (DirectusPatch i d ok)
  with assms have d: "d = failed_patch" by simp
  show ?thesis
  proof (cases "ok \<and> i \<in> cmd_id ` set its")
    case True
    with DirectusPatch d show ?thesis
      by (simp add: directus_patch_def mark_failed_def)
  next
    case False
    have "map (mark_failed (set (accepted_id e))) its = its"
    proof (rule map_idI)
      fix r assume "r \<in> set its"
      with False DirectusPatch show "mark_failed (set (accepted_id e)) r = r"
        by (auto simp: mark_failed_def)
    qed
    moreover have "apply_effect its e = its"
      using False DirectusPatch by (auto simp: directus_patch_def)
    ultimately show ?thesis by simp
  qed
qed

lemma apply_effects_mark_failed:
  assumes "\<forall>i d ok. DirectusPatch i d ok \<in> set fx \<longrightarrow> d = failed_patch"
  shows "foldl apply_effect its fx = map (mark_failed (accepted_ids fx)) its"
  using assms
proof (induction fx arbitrary: its)
  case Nil
  show ?case by (simp add: accepted_ids_def map_mark_failed_empty)
next
  case (Cons e fx)
  have head: "apply_effect its e = map (mark_failed (set (accepted_id e))) its"
    using Cons.prems by (intro apply_effect_mark_failed) auto
  have tail: "\<forall>i d ok. DirectusPatch i d ok \<in> set fx \<longrightarrow> d = failed_patch"
    using Cons.prems by auto
  have "foldl apply_effect its (e # fx) =
          map (mark_failed (accepted_ids fx)) (map (mark_failed (set (accepted_id e))) its)"
    using Cons.IH [OF tail] head by simp
  also have "\<dots> = map (mark_failed (set (accepted_id e) \<union> accepted_ids fx)) its"
    by (simp add: mark_failed_union)
  also have "set (accepted_id e) \<union> accepted_ids fx = accepted_ids (e # fx)"
    by (simp add: accepted_ids_def)
  finally show ?case .
qed

lemma accepted_ids_iff: "i \<in> accepted_ids fx \<longleftrightarrow> (\<exists>d. DirectusPatch i d True \<in> set fx)"
proof -
  have "\<And>e. i \<in> set (accepted_id e) \<longleftrightarrow> (\<exists>d. e = DirectusPatch i d True)"
  proof -
    fix e show "i \<in> set (accepted_id e) \<longleftrightarrow> (\<exists>d. e = DirectusPatch i d True)"
      by (cases e) auto
  qed
  then show ?thesis by (auto simp: accepted_ids_def)
qed

lemma accepted_ids_calls:
  assumes "calls_about k fx = [DirectusPatch k d ok]"
  shows "k \<in> accepted_ids fx \<longleftrightarrow> ok"
proof
  assume "k \<in> accepted_ids fx"
  then obtain d' where "DirectusPatch k d' True \<in> set fx" by (auto simp: accepted_ids_iff)
  then have "DirectusPatch k d' True \<in> set (calls_about k fx)" by (simp add: calls_about_def)
  with assms show ok by simp
next
  assume ok
  with assms have "DirectusPatch k d True \<in> set (calls_about k fx)" by simp
  then have "DirectusPatch k d True \<in> set fx" by (simp add: calls_about_def)
  then show "k \<in> accepted_ids fx" by (auto simp: accepted_ids_iff)
qed


lemma pending_two: "directus_get_pending [cmd_C1, cmd_C3] = [cmd_C1, cmd_C3]"
  by (simp add: directus_get_pending_def cmd_C1_def cmd_C3_def)

lemma no_address_C1_C3:
  "deviceMac_of cmd_C1 = None" "deviceMac_of cmd_C3 = None"
  "cmd_id cmd_C1 = ''C1''" "cmd_id cmd_C3 = ''C3''"
  by (simp_all add: deviceMac_of_def cmd_C1_def cmd_C3_def)

lemma mixed_cycle:
  "pollPendingCommands True (Inr [cmd_C1, cmd_C3]) (env_first_patch t) bridge_up =
     (bridge_up, [(''C1'', MarkedFailed), (''C3'', MarkedFailed)],
      [DirectusPatch ''C1'' failed_patch True, DirectusPatch ''C3'' failed_patch False])"
  by (simp add: pollPendingCommands_def pollStep_def no_address_C1_C3 bridge_up_def
        env_first_patch_def env_ok_def env_store_down_def)

lemma mixed_store:
  "foldl apply_effect [cmd_C1, cmd_C3]
     [DirectusPatch ''C1'' failed_patch True, DirectusPatch ''C3'' failed_patch False] =
   [cmd_C1_failed, cmd_C3]"
  by (simp add: directus_patch_def no_address_C1_C3)
     (simp add: apply_patch_def failed_patch_def cmd_C1_def cmd_C1_failed_def)

lemma mixed_step:
  "sys_step True ToString \<lparr>bridge_st = bridge_up, store = [cmd_C1, cmd_C3]\<rparr>
      (Cycle True (env_first_patch t)) =
     (\<lparr>bridge_st = bridge_up, store = [cmd_C1_failed, cmd_C3]\<rparr>,
      [DirectusPatch ''C1'' failed_patch True, DirectusPatch ''C3'' failed_patch False])"
  by (simp add: pending_two mixed_cycle mixed_store del: foldl.simps)

subsection \<open>The claim\<close>

text \<open>
  Claim C6, as stated, fails: the cycle's patch can be refused by the store. The code
  swallows that error (\<^verbatim>\<open>.catch(() => {})\<close>), the command stays pending, and the next
  cycle handles it again. Here the store refuses the patch for \<open>C1\<close> in the first cycle
  and accepts the one of the second cycle.
\<close>

theorem refused_patch_retried:
  "sys_step True (\<lambda>v. []) \<lparr>bridge_st = bridge_up, store = [cmd_C1]\<rparr>
      (Cycle True (\<lambda>i. env_store_down 1000)) =
     (\<lparr>bridge_st = bridge_up, store = [cmd_C1]\<rparr>, [DirectusPatch ''C1'' failed_patch False])
   \<and> status cmd_C1 = ''pending''
   \<and> sys_run True (\<lambda>v. []) \<lparr>bridge_st = bridge_up, store = [cmd_C1]\<rparr>
        [Cycle True (\<lambda>i. env_store_down 1000), Cycle True (\<lambda>i. env_ok 4000)] =
     (\<lparr>bridge_st = bridge_up, store = [cmd_C1_failed]\<rparr>,
      [DirectusPatch ''C1'' failed_patch False, DirectusPatch ''C1'' failed_patch True])"
proof -
  have "status cmd_C1 = ''pending''" by (simp add: cmd_C1_def)
  then show ?thesis
    by (simp add: refused_step_C1 marking_step_C1 del: sys_step.simps)
qed

text \<open>
  Claim C6, amended. Let a cycle run (connected, not already polling) over a store that
  holds every identifier once, and let its batch hold a pending command that has no entry
  in the dedup map and whose device has no address. Then, whatever the store answers, the
  cycle makes exactly one call about the command: the patch that sets its status to failed
  with the error message \<^verbatim>\<open>Device has no MAC address configured\<close>; it publishes nothing
  for it. The flag \<open>ok\<close> is the store's answer to that one patch, whatever it answers to
  the other patches of the cycle. When the store accepts it, the command's record has that
  status and message after the cycle, and whatever follows (cycles, status reports,
  connection events, cleanups), no later cycle makes any call about the command, and its
  status never is pending again. When the store refuses it, the command's record is in
  the store as it was, pending.
\<close>

theorem unresolved_device_marked_failed:
  assumes cycle: "sys_step True ToString s (Cycle True env) = (s1, fx1)"
    and idle: "mqttConnected (bridge_st s)" "\<not> isPolling (bridge_st s)"
    and batch: "c \<in> set (directus_get_pending (store s))"
    and nomac: "deviceMac_of c = None"
    and uncached: "recentlyPublished (bridge_st s) (cmd_id c) = None"
    and ids: "distinct (map cmd_id (store s))"
    and later: "sys_run directusApi ToString s1 acts = (s2, fx2)"
  shows "\<exists>ok. calls_about (cmd_id c) fx1 = [DirectusPatch (cmd_id c) failed_patch ok]
          \<and> (ok \<longrightarrow>
                (\<forall>r \<in> set (store s1). cmd_id r = cmd_id c \<longrightarrow>
                   status r = ''failed''
                   \<and> error_message r = JStr ''Device has no MAC address configured'')
                \<and> calls_about (cmd_id c) fx2 = []
                \<and> (\<forall>r \<in> set (store s2). cmd_id r = cmd_id c \<longrightarrow> status r \<noteq> ''pending''))
          \<and> (\<not> ok \<longrightarrow> c \<in> set (store s1) \<and> status c = ''pending'')"
proof -
  let ?k = "cmd_id c"
  let ?batch = "directus_get_pending (store s)"
  obtain b' outs where c: "pollPendingCommands True (Inr ?batch) env (bridge_st s) = (b', outs, fx1)"
    and s1: "s1 = \<lparr>bridge_st = b', store = foldl apply_effect (store s) fx1\<rparr>"
    using cycle by (auto split: prod.splits)
  obtain l where loop: "pollLoop env 0 ?batch ((bridge_st s)\<lparr>isPolling := True\<rparr>) = (l, outs, fx1)"
    using c idle by (auto simp: pollPendingCommands_def split: prod.splits)
  have "recentlyPublished ((bridge_st s)\<lparr>isPolling := True\<rparr>) ?k = None"
    using uncached by simp
  from pollLoop_marks_once [OF loop pending_distinct [OF ids] batch nomac this]
  obtain ok where a: "calls_about ?k fx1 = [DirectusPatch ?k failed_patch ok]" by auto
  have inst: "c \<in> set (store s)" and pend: "status c = ''pending''"
    using batch pending_subset [of "store s"] by auto
  have yes: "(\<forall>r \<in> set (store s1). cmd_id r = ?k \<longrightarrow>
                   status r = ''failed''
                   \<and> error_message r = JStr ''Device has no MAC address configured'')
             \<and> calls_about ?k fx2 = []
             \<and> (\<forall>r \<in> set (store s2). cmd_id r = ?k \<longrightarrow> status r \<noteq> ''pending'')" if ok
  proof -
    from a that have "DirectusPatch ?k failed_patch True \<in> set (calls_about ?k fx1)" by simp
    then have mem: "DirectusPatch ?k failed_patch True \<in> set fx1" by (simp add: calls_about_def)
    from inst have "?k \<in> cmd_id ` set (store s)" by (rule imageI)
    from apply_effects_mark [OF mem cycle_patches_failed [OF c] this] s1
    have m: "marked ?k (store s1)" by simp
    from sys_run_settled [OF later marked_settled [OF m]]
    have "settled ?k (store s2)" "calls_about ?k fx2 = []" by simp_all
    with m show ?thesis by (simp add: marked_def settled_def)
  qed
  have no: "c \<in> set (store s1) \<and> status c = ''pending''" if "\<not> ok"
  proof -
    have "?k \<notin> accepted_ids fx1" using accepted_ids_calls [OF a] that by simp
    then have "mark_failed (accepted_ids fx1) c = c" by (rule mark_failed_other)
    then have "c \<in> mark_failed (accepted_ids fx1) ` set (store s)"
      using inst by (metis imageI)
    then have "c \<in> set (store s1)"
      using s1 apply_effects_mark_failed [OF cycle_patches_failed [OF c], of "store s"] by simp
    with pend show ?thesis by simp
  qed
  from a yes no show ?thesis by blast
qed

theorem unresolved_device_marked_failed_witness:
  "sys_step True (\<lambda>v. []) \<lparr>bridge_st = bridge_up, store = [cmd_C1, cmd_C3]\<rparr>
      (Cycle True (env_first_patch 1000)) =
     (\<lparr>bridge_st = bridge_up, store = [cmd_C1_failed, cmd_C3]\<rparr>,
      [DirectusPatch ''C1'' failed_patch True, DirectusPatch ''C3'' failed_patch False])
   \<and> calls_about ''C1'' [DirectusPatch ''C1'' failed_patch True,
                           DirectusPatch ''C3'' failed_patch False] =
       [DirectusPatch ''C1'' failed_patch True]
   \<and> calls_about ''C3'' [DirectusPatch ''C1'' failed_patch True,
                           DirectusPatch ''C3'' failed_patch False] =
       [DirectusPatch ''C3'' failed_patch False]
   \<and> calls_about ''C1'' (snd (sys_run True (\<lambda>v. [])
        \<lparr>bridge_st = bridge_up, store = [cmd_C1_failed, cmd_C3]\<rparr>
        [Ev (CleanupTick 60000), Cycle True (\<lambda>i. env_ok 61000),
         Report True 62000 ''device/AA:BB:CC/status'' (Some report_C2),
         Cycle True (\<lambda>i. env_ok 64000)])) = []
   \<and> cmd_C3 \<in> set [cmd_C1_failed, cmd_C3]"
proof -
  let ?s0 = "\<lparr>bridge_st = bridge_up, store = [cmd_C1, cmd_C3]\<rparr>"
  let ?s1 = "\<lparr>bridge_st = bridge_up, store = [cmd_C1_failed, cmd_C3]\<rparr>"
  let ?fx = "[DirectusPatch ''C1'' failed_patch True, DirectusPatch ''C3'' failed_patch False]"
  let ?acts = "[Ev (CleanupTick 60000), Cycle True (\<lambda>i. env_ok 61000),
         Report True 62000 ''device/AA:BB:CC/status'' (Some report_C2),
         Cycle True (\<lambda>i. env_ok 64000)]"
  let ?run = "sys_run True (\<lambda>v. []) ?s1 ?acts"
  have r: "?run = (fst ?run, snd ?run)" by simp
  have i: "mqttConnected (bridge_st ?s0)" "\<not> isPolling (bridge_st ?s0)"
    "recentlyPublished (bridge_st ?s0) (cmd_id cmd_C1) = None"
    "recentlyPublished (bridge_st ?s0) (cmd_id cmd_C3) = None"
    by (simp_all add: bridge_up_def)
  have b: "cmd_C1 \<in> set (directus_get_pending (store ?s0))"
    "cmd_C3 \<in> set (directus_get_pending (store ?s0))"
    by (simp_all add: pending_two)
  have d: "distinct (map cmd_id (store ?s0))" by (simp add: no_address_C1_C3)
  have c1: "calls_about ''C1'' ?fx = [DirectusPatch ''C1'' failed_patch True]"
    and c3: "calls_about ''C3'' ?fx = [DirectusPatch ''C3'' failed_patch False]"
    by (simp_all add: calls_about_def)
  from unresolved_device_marked_failed
         [OF mixed_step i(1,2) b(1) no_address_C1_C3(1) i(3) d r]
  obtain ok1 where o1: "calls_about ''C1'' ?fx = [DirectusPatch ''C1'' failed_patch ok1]"
    "ok1 \<longrightarrow> calls_about ''C1'' (snd ?run) = []"
    unfolding no_address_C1_C3 by blast
  from o1(1) c1 have ok1 by simp
  with o1(2) have 1: "calls_about ''C1'' (snd ?run) = []" by blast
  from unresolved_device_marked_failed
         [OF mixed_step i(1,2) b(2) no_address_C1_C3(2) i(4) d r]
  obtain ok3 where o3: "calls_about ''C3'' ?fx = [DirectusPatch ''C3'' failed_patch ok3]"
    "\<not> ok3 \<longrightarrow> cmd_C3 \<in> set (store ?s1)"
    unfolding no_address_C1_C3 by blast
  from o3(1) c3 have "\<not> ok3" by simp
  with o3(2) have 3: "cmd_C3 \<in> set [cmd_C1_failed, cmd_C3]" by simp
  from mixed_step [of "\<lambda>v. []" 1000] c1 c3 1 3 show ?thesis by blast
qed


section \<open>A dispatch that fails\<close>

subsection \<open>The next batch\<close>





subsection \<open>The dispatch of a command that is due\<close>









subsection \<open>The claim on a failed dispatch\<close>



end
